theory Spec2Isabelle
  imports Complex_Main "HOL-Library.Sublist"
begin

section \<open>Data model\<close>

text \<open>
  The inference-time pipeline of \<^verbatim>\<open>server/preprocess.py\<close> works on a pandas data frame.
  A frame is modelled by the ordered list of its column names and the list of its rows in
  frame order. A row carries
  \<^item> \<open>idx\<close>: its pandas index label, which \<^verbatim>\<open>pd.read_csv\<close> sets to the position of the
    data line (a \<^verbatim>\<open>RangeIndex\<close>) and which no later operation of the pipeline rewrites;
  \<^item> \<open>kepoi\<close>: the cell of the identifier column \<^verbatim>\<open>kepoi_name\<close> (a string, or missing);
  \<^item> \<open>cells\<close>: the cells of the numeric columns, by column name.
  A numeric cell is a \<^verbatim>\<open>float64\<close>: \<open>None\<close> is NaN (a missing value), \<open>Some v\<close> a number.
  Numbers are modelled as reals, so rounding and the infinities are outside the model.
  A comparison with NaN is false in pandas; every comparison below is written with that
  case spelled out. Whether a column exists is decided by \<open>columns\<close> alone; the cell of a
  column that does not exist is kept at \<open>None\<close>.
\<close>

record row =
  idx :: nat
  kepoi :: "string option"
  cells :: "string \<Rightarrow> real option"

record table =
  columns :: "string list"
  rows :: "row list"

text \<open>
  The statistics artifact \<^verbatim>\<open>training_stats.json\<close>, with the three keys the pipeline reads.
  A feature without an entry in \<open>medians_pretransform\<close> (or with \<^verbatim>\<open>null\<close>) maps to \<open>None\<close>;
  a feature without an entry in \<open>valid_ranges\<close> raises \<^verbatim>\<open>KeyError\<close> when it is looked up.
\<close>

record stats =
  medians_pretransform :: "string \<Rightarrow> real option"
  valid_ranges :: "string \<Rightarrow> (real \<times> real) option"
  log_transform_features :: "string list"

text \<open>
  Diagnostics. The message strings of the source are kept as constructors: the f-strings
  print the feature name and, for ranges, the two bounds.
\<close>

datatype message =
    OutOfRange string real real
  | PlanetLargerThanStar
  | RequiredMissing string
  | ExtremeOutlier string
  | CsvEmpty
  | MissingColumns "string list"
  | Unexpected string

record error_entry =
  err_row :: int
  err_message :: message

datatype warning =
    DetectedPreprocessed
  | RemovedDuplicates nat

text \<open>
  Whether a frame has a column, a column's cells, and the values that
  \<^verbatim>\<open>df[feat].dropna()\<close> keeps. \<open>series_min\<close> and \<open>series_max\<close> are \<^verbatim>\<open>values.min()\<close> and
  \<^verbatim>\<open>values.max()\<close>; the source calls them on non-empty series only.
\<close>

definition has_column :: "table \<Rightarrow> string \<Rightarrow> bool" where
  "has_column df feat = (feat \<in> set (columns df))"

definition column :: "table \<Rightarrow> string \<Rightarrow> real option list" where
  "column df feat = map (\<lambda>r. cells r feat) (rows df)"

definition dropna_values :: "table \<Rightarrow> string \<Rightarrow> real list" where
  "dropna_values df feat = List.map_filter (\<lambda>r. cells r feat) (rows df)"

fun series_min :: "real list \<Rightarrow> real" where
  "series_min (x # xs) = fold min xs x"

fun series_max :: "real list \<Rightarrow> real" where
  "series_max (x # xs) = fold max xs x"

text \<open>
  \<^verbatim>\<open>df[mask]\<close>: the rows whose mask entry is true, in order, each with its index label.
\<close>

definition select_mask :: "table \<Rightarrow> bool list \<Rightarrow> table" where
  "select_mask df keep = df\<lparr>rows := map snd (filter fst (zip keep (rows df)))\<rparr>"

section \<open>Format detector\<close>

text \<open>
  \<^verbatim>\<open>is_already_preprocessed\<close>. The list of log features is the literal of the function
  body, not the list of the statistics artifact. \<open>votes_transformed\<close> is the
  \<^verbatim>\<open>if/elif\<close> chain over the feature name with its hard-coded bounds.
\<close>

definition detector_log_features :: "string list" where
  "detector_log_features =
     [''koi_period'', ''koi_depth'', ''koi_prad'', ''koi_insol'', ''koi_srad'', ''koi_model_snr'']"

definition votes_transformed :: "string \<Rightarrow> real \<Rightarrow> real \<Rightarrow> bool" where
  "votes_transformed feat min_val max_val =
     (if feat = ''koi_period'' then max_val \<le> 3.5 \<and> min_val \<ge> - 1.5
      else if feat = ''koi_depth'' then max_val \<le> 6.0 \<and> min_val \<ge> 0.0
      else if feat = ''koi_prad'' then max_val \<le> 2.5 \<and> min_val \<ge> - 1.0
      else if feat = ''koi_insol'' then max_val \<le> 4.0 \<and> min_val \<ge> - 2.0
      else if feat = ''koi_srad'' then max_val \<le> 1.5 \<and> min_val \<ge> - 1.0
      else if feat = ''koi_model_snr'' then max_val \<le> 5.0 \<and> min_val \<ge> - 2.0
      else False)"

text \<open>One pass of the \<^verbatim>\<open>for feat in available_log_features\<close> loop on the two counters.\<close>

definition detect_step :: "table \<Rightarrow> string \<Rightarrow> nat \<times> nat \<Rightarrow> nat \<times> nat" where
  "detect_step df feat st =
     (case st of (indicators, total_checks) \<Rightarrow>
        (let values = dropna_values df feat in
         if length values = 0 then (indicators, total_checks)
         else
           (let min_val = series_min values;
                max_val = series_max values
            in (if votes_transformed feat min_val max_val then indicators + 1 else indicators,
                total_checks + 1))))"

definition is_already_preprocessed :: "table \<Rightarrow> bool" where
  "is_already_preprocessed df =
     (let available_log_features = filter (has_column df) detector_log_features in
      if length available_log_features = 0 then False
      else
        (case fold (detect_step df) available_log_features (0, 0) of
           (indicators, total_checks) \<Rightarrow>
             if total_checks = 0 then False
             else real indicators / real total_checks \<ge> 0.5))"

text \<open>
  The detector as the specification words it: the participating features are the log
  features present in the table with at least one non-missing value; a participating
  feature votes when its observed minimum and maximum both lie in the feature's
  calibrated interval.
\<close>

definition calibrated_range :: "string \<Rightarrow> real \<times> real" where
  "calibrated_range feat =
     (if feat = ''koi_period'' then (- 1.5, 3.5)
      else if feat = ''koi_depth'' then (0, 6)
      else if feat = ''koi_prad'' then (- 1, 2.5)
      else if feat = ''koi_insol'' then (- 2, 4)
      else if feat = ''koi_srad'' then (- 1, 1.5)
      else (- 2, 5))"

definition inside :: "real \<times> real \<Rightarrow> real \<Rightarrow> bool" where
  "inside rg v = (fst rg \<le> v \<and> v \<le> snd rg)"

definition participating :: "table \<Rightarrow> string list" where
  "participating df =
     filter (\<lambda>feat. has_column df feat \<and> dropna_values df feat \<noteq> []) detector_log_features"

definition voting :: "table \<Rightarrow> string list" where
  "voting df =
     filter (\<lambda>feat. inside (calibrated_range feat) (Min (set (dropna_values df feat)))
                   \<and> inside (calibrated_range feat) (Max (set (dropna_values df feat))))
       (participating df)"

definition spec_detector :: "table \<Rightarrow> bool" where
  "spec_detector df =
     (if participating df = [] then False
      else real (length (voting df)) / real (length (participating df)) \<ge> 1 / 2)"

text \<open>
  The two tests of one loop pass, named for the proofs: whether a feature is counted in
  \<^verbatim>\<open>total_checks\<close>, and whether it is counted in \<^verbatim>\<open>indicators\<close>.
\<close>

definition counts_part :: "table \<Rightarrow> string \<Rightarrow> bool" where
  "counts_part df feat = (dropna_values df feat \<noteq> [])"

definition counts_vote :: "table \<Rightarrow> string \<Rightarrow> bool" where
  "counts_vote df feat =
     votes_transformed feat (series_min (dropna_values df feat)) (series_max (dropna_values df feat))"

section \<open>Physical plausibility filter\<close>

text \<open>
  \<^verbatim>\<open>validate_physical_ranges\<close>. Each block of the source computes a boolean series
  \<^verbatim>\<open>invalid\<close>, appends one error per invalid row (with \<^verbatim>\<open>int(idx)\<close>, the row's index
  label) and clears the rows' entries of \<^verbatim>\<open>mask\<close>. The three tests on a row follow; a
  comparison with a missing value is false. The period test is \<^verbatim>\<open><=\<close> below and \<^verbatim>\<open>>\<close>
  above, the other range tests are \<^verbatim>\<open><\<close> and \<^verbatim>\<open>>\<close>.
\<close>

definition period_invalid :: "real \<Rightarrow> real \<Rightarrow> row \<Rightarrow> bool" where
  "period_invalid min_val max_val r =
     (case cells r ''koi_period'' of
        None \<Rightarrow> False
      | Some v \<Rightarrow> v \<le> min_val \<or> v > max_val)"

definition range_invalid :: "string \<Rightarrow> real \<Rightarrow> real \<Rightarrow> row \<Rightarrow> bool" where
  "range_invalid feat min_val max_val r =
     (case cells r feat of
        None \<Rightarrow> False
      | Some v \<Rightarrow> v < min_val \<or> v > max_val)"

definition radius_invalid :: "row \<Rightarrow> bool" where
  "radius_invalid r =
     (case cells r ''koi_prad'' of
        None \<Rightarrow> False
      | Some p \<Rightarrow>
          (case cells r ''koi_srad'' of
             None \<Rightarrow> False
           | Some s \<Rightarrow> p > s * 109.1))"

text \<open>
  The state of the function is the pair of \<^verbatim>\<open>mask\<close> and \<^verbatim>\<open>errors\<close>. \<open>apply_check\<close> is
  the body of one block; \<open>range_check\<close> is a block guarded by the column's presence, with
  the lookup \<^verbatim>\<open>valid_ranges[feat]\<close> that raises \<^verbatim>\<open>KeyError\<close> for an absent key.
\<close>

definition row_error :: "message \<Rightarrow> row \<Rightarrow> error_entry" where
  "row_error msg r = \<lparr>err_row = int (idx r), err_message = msg\<rparr>"

definition apply_check ::
  "table \<Rightarrow> (row \<Rightarrow> bool) \<Rightarrow> message \<Rightarrow> bool list \<times> error_entry list
     \<Rightarrow> bool list \<times> error_entry list" where
  "apply_check df invalid msg st =
     (case st of (keep, errs) \<Rightarrow>
        (map2 (\<lambda>k r. k \<and> \<not> invalid r) keep (rows df),
         errs @ map (row_error msg) (filter invalid (rows df))))"

definition range_check ::
  "table \<Rightarrow> stats \<Rightarrow> string \<Rightarrow> (real \<Rightarrow> real \<Rightarrow> row \<Rightarrow> bool)
     \<Rightarrow> bool list \<times> error_entry list \<Rightarrow> message + bool list \<times> error_entry list" where
  "range_check df st feat test state =
     (if has_column df feat then
        (case valid_ranges st feat of
           None \<Rightarrow> Inl (Unexpected feat)
         | Some (min_val, max_val) \<Rightarrow>
             Inr (apply_check df (test min_val max_val) (OutOfRange feat min_val max_val) state))
      else Inr state)"

definition validate_physical_ranges ::
  "table \<Rightarrow> stats \<Rightarrow> message + table \<times> error_entry list" where
  "validate_physical_ranges df st =
     (case range_check df st ''koi_period'' period_invalid
             (replicate (length (rows df)) True, []) of
        Inl e \<Rightarrow> Inl e
      | Inr s1 \<Rightarrow>
      (case range_check df st ''koi_prad'' (range_invalid ''koi_prad'') s1 of
        Inl e \<Rightarrow> Inl e
      | Inr s2 \<Rightarrow>
      (case range_check df st ''koi_depth'' (range_invalid ''koi_depth'') s2 of
        Inl e \<Rightarrow> Inl e
      | Inr s3 \<Rightarrow>
      (case range_check df st ''koi_teq'' (range_invalid ''koi_teq'') s3 of
        Inl e \<Rightarrow> Inl e
      | Inr s4 \<Rightarrow>
          (let s5 = (if has_column df ''koi_prad'' \<and> has_column df ''koi_srad''
                     then apply_check df radius_invalid PlanetLargerThanStar s4
                     else s4)
           in Inr (select_mask df (fst s5), snd s5))))))"

text \<open>
  Modelled from the spec: the contents of \<^verbatim>\<open>training_stats.json\<close>, which is not among the
  sources. The default ranges are those of the specification (period \<open>(0.2, 730]\<close>, planet
  radius \<open>[0.5, 30]\<close>, transit depth \<open>[10, 100000]\<close>, equilibrium temperature
  \<open>[100, 3000]\<close>), which are also the constants of the training pipeline; the log-transform
  list is the one of the training pipeline. The medians are not given anywhere, so they
  stay a parameter.
\<close>

definition default_ranges :: "string \<Rightarrow> (real \<times> real) option" where
  "default_ranges feat =
     (if feat = ''koi_period'' then Some (0.2, 730)
      else if feat = ''koi_prad'' then Some (0.5, 30)
      else if feat = ''koi_depth'' then Some (10, 100000)
      else if feat = ''koi_teq'' then Some (100, 3000)
      else None)"

definition default_log_features :: "string list" where
  "default_log_features =
     [''koi_period'', ''koi_depth'', ''koi_prad'', ''koi_insol'', ''koi_srad'', ''koi_model_snr'']"

definition reference_stats :: "(string \<Rightarrow> real option) \<Rightarrow> stats" where
  "reference_stats medians =
     \<lparr>medians_pretransform = medians,
      valid_ranges = default_ranges,
      log_transform_features = default_log_features\<rparr>"

text \<open>
  What the filter does to one row, read off the blocks: the row fails a range block that
  runs, or the cross-feature block when both radius columns exist. \<open>survives\<close> says that
  the filter returns a frame and the row is in it.
\<close>

definition range_fails :: "table \<Rightarrow> stats \<Rightarrow> string \<Rightarrow> (real \<Rightarrow> real \<Rightarrow> row \<Rightarrow> bool) \<Rightarrow> row \<Rightarrow> bool" where
  "range_fails df st feat test r =
     (has_column df feat \<and>
      (case valid_ranges st feat of None \<Rightarrow> False | Some (lo, hi) \<Rightarrow> test lo hi r))"

definition range_rejected :: "table \<Rightarrow> stats \<Rightarrow> row \<Rightarrow> bool" where
  "range_rejected df st r =
     (range_fails df st ''koi_period'' period_invalid r \<or>
      range_fails df st ''koi_prad'' (range_invalid ''koi_prad'') r \<or>
      range_fails df st ''koi_depth'' (range_invalid ''koi_depth'') r \<or>
      range_fails df st ''koi_teq'' (range_invalid ''koi_teq'') r)"

definition cross_rejected :: "table \<Rightarrow> row \<Rightarrow> bool" where
  "cross_rejected df r =
     (has_column df ''koi_prad'' \<and> has_column df ''koi_srad'' \<and> radius_invalid r)"

definition row_rejected :: "table \<Rightarrow> stats \<Rightarrow> row \<Rightarrow> bool" where
  "row_rejected df st r = (range_rejected df st r \<or> cross_rejected df r)"

definition survives :: "table \<Rightarrow> stats \<Rightarrow> row \<Rightarrow> bool" where
  "survives df st r =
     (case validate_physical_ranges df st of
        Inl e \<Rightarrow> False
      | Inr res \<Rightarrow> r \<in> set (rows (fst res)))"

section \<open>Duplicate resolution\<close>

text \<open>
  Step 6 of \<^verbatim>\<open>preprocess_csv\<close>: \<^verbatim>\<open>df.drop_duplicates(subset='kepoi_name', keep='first')\<close>.
  pandas walks the frame in its order and keeps a row when the value of the key column has
  not occurred before; missing keys count as equal to each other. Nothing is sorted
  before. \<open>keep_first\<close> carries the keys seen so far.
\<close>

fun keep_first :: "string option list \<Rightarrow> row list \<Rightarrow> row list" where
  "keep_first seen [] = []"
| "keep_first seen (r # rs) =
     (if kepoi r \<in> set seen then keep_first seen rs
      else r # keep_first (kepoi r # seen) rs)"

definition drop_duplicates :: "table \<Rightarrow> table" where
  "drop_duplicates df = df\<lparr>rows := keep_first [] (rows df)\<rparr>"

text \<open>
  The specification's tie-break reads the signal-to-noise ratio of a row, a missing one
  counting as the lowest possible value: \<open>snr_below a b\<close> says that row \<open>a\<close> ranks strictly
  below row \<open>b\<close> in that order.
\<close>

definition snr_below :: "row \<Rightarrow> row \<Rightarrow> bool" where
  "snr_below a b =
     (case cells b ''koi_model_snr'' of
        None \<Rightarrow> False
      | Some y \<Rightarrow> (case cells a ''koi_model_snr'' of None \<Rightarrow> True | Some x \<Rightarrow> x < y))"

section \<open>Imputer\<close>

text \<open>
  \<^verbatim>\<open>impute_missing_values\<close>. First loop: one error per row and required feature that is
  missing, for the required features that are columns. Then
  \<^verbatim>\<open>dropna(subset=[f for f in required_features if f in df.columns])\<close>. Second loop: an
  optional column with a missing value is filled with \<^verbatim>\<open>medians.get(feat)\<close> when that is
  not \<^verbatim>\<open>None\<close>.
\<close>

definition required_step :: "table \<Rightarrow> string \<Rightarrow> error_entry list \<Rightarrow> error_entry list" where
  "required_step df feat errs =
     (if has_column df feat then
        errs @ map (row_error (RequiredMissing feat)) (filter (\<lambda>r. cells r feat = None) (rows df))
      else errs)"

definition dropna_subset :: "table \<Rightarrow> string list \<Rightarrow> table" where
  "dropna_subset df feats =
     df\<lparr>rows := filter (\<lambda>r. list_all (\<lambda>feat. cells r feat \<noteq> None) feats) (rows df)\<rparr>"

definition fillna :: "string \<Rightarrow> real \<Rightarrow> row \<Rightarrow> row" where
  "fillna feat median_val r =
     (case cells r feat of
        None \<Rightarrow> r\<lparr>cells := (cells r)(feat := Some median_val)\<rparr>
      | Some v \<Rightarrow> r)"

definition fill_step :: "(string \<Rightarrow> real option) \<Rightarrow> string \<Rightarrow> table \<Rightarrow> table" where
  "fill_step medians feat df =
     (if has_column df feat then
        (if list_ex (\<lambda>r. cells r feat = None) (rows df) then
           (case medians feat of
              None \<Rightarrow> df
            | Some median_val \<Rightarrow> df\<lparr>rows := map (fillna feat median_val) (rows df)\<rparr>)
         else df)
      else df)"

definition impute_missing_values ::
  "table \<Rightarrow> string list \<Rightarrow> string list \<Rightarrow> stats \<Rightarrow> table \<times> error_entry list" where
  "impute_missing_values df required_features optional_features st =
     (let medians = medians_pretransform st;
          errs = fold (required_step df) required_features [];
          df1 = dropna_subset df (filter (has_column df) required_features);
          df2 = fold (fill_step medians) optional_features df1
      in (df2, errs))"

text \<open>
  Imputation as a function of one row, the way the specification words it: a missing
  optional value becomes the frozen median of the statistics artifact, when there is one.
  \<open>feats\<close> are the optional features that are columns of the frame.
\<close>

definition fill_row :: "(string \<Rightarrow> real option) \<Rightarrow> string list \<Rightarrow> row \<Rightarrow> row" where
  "fill_row medians feats r =
     r\<lparr>cells := (\<lambda>feat. if feat \<in> set feats
                          then (case cells r feat of None \<Rightarrow> medians feat | Some v \<Rightarrow> Some v)
                          else cells r feat)\<rparr>"

definition has_required :: "table \<Rightarrow> string list \<Rightarrow> row \<Rightarrow> bool" where
  "has_required df required r =
     list_all (\<lambda>feat. cells r feat \<noteq> None) (filter (has_column df) required)"

section \<open>Magnitude transformer\<close>

text \<open>
  \<^verbatim>\<open>apply_log_transforms\<close>, and \<^verbatim>\<open>DataCleaner._apply_log_transforms\<close> of the training
  pipeline, which has the same body. The frame operations of one loop pass are modelled
  one by one:
  \<^item> \<^verbatim>\<open>df[new_col] = np.nan\<close> adds the column at the end, or overwrites a column of that name;
  \<^item> \<^verbatim>\<open>df.loc[mask, new_col] = np.log10(df.loc[mask, feat])\<close> writes the rows of the mask;
  \<^item> \<^verbatim>\<open>df.drop(columns=[feat])\<close> removes the column;
  \<^item> \<^verbatim>\<open>df.rename(columns={new_col: feat})\<close> renames the column in place.
\<close>

definition positive :: "string \<Rightarrow> row \<Rightarrow> bool" where
  "positive feat r = (case cells r feat of None \<Rightarrow> False | Some v \<Rightarrow> v > 0)"

definition set_cell :: "string \<Rightarrow> real option \<Rightarrow> row \<Rightarrow> row" where
  "set_cell c v r = r\<lparr>cells := (cells r)(c := v)\<rparr>"

definition assign_nan :: "table \<Rightarrow> string \<Rightarrow> table" where
  "assign_nan df c =
     \<lparr>columns = (if c \<in> set (columns df) then columns df else columns df @ [c]),
      rows = map (set_cell c None) (rows df)\<rparr>"

definition assign_log10 :: "table \<Rightarrow> string \<Rightarrow> string \<Rightarrow> table" where
  "assign_log10 df new_col feat =
     df\<lparr>rows := map (\<lambda>r. if positive feat r
                          then set_cell new_col (map_option (log 10) (cells r feat)) r
                          else r) (rows df)\<rparr>"

definition drop_column :: "table \<Rightarrow> string \<Rightarrow> table" where
  "drop_column df c =
     \<lparr>columns = removeAll c (columns df), rows = map (set_cell c None) (rows df)\<rparr>"

definition rename_column :: "table \<Rightarrow> string \<Rightarrow> string \<Rightarrow> table" where
  "rename_column df old new =
     \<lparr>columns = map (\<lambda>c. if c = old then new else c) (columns df),
      rows = map (\<lambda>r. set_cell old None (set_cell new (cells r old) r)) (rows df)\<rparr>"

definition log_step :: "string \<Rightarrow> table \<Rightarrow> table" where
  "log_step feat df =
     (if has_column df feat then
        (if length (filter (positive feat) (rows df)) = 0 then df
         else
           (let new_col = ''log_'' @ feat;
                df1 = assign_nan df new_col;
                df2 = assign_log10 df1 new_col feat;
                df3 = drop_column df2 feat
            in rename_column df3 new_col feat))
      else df)"

definition apply_log_transforms :: "table \<Rightarrow> stats \<Rightarrow> table" where
  "apply_log_transforms df st = fold log_step (log_transform_features st) df"

text \<open>
  What the stage is to do to one cell, and whether a column has a strictly positive entry.
\<close>

definition log_cell :: "real option \<Rightarrow> real option" where
  "log_cell v = (case v of None \<Rightarrow> None | Some x \<Rightarrow> if x > 0 then Some (log 10 x) else None)"

definition cell_positive :: "real option \<Rightarrow> bool" where
  "cell_positive v = (case v of None \<Rightarrow> False | Some x \<Rightarrow> x > 0)"

definition no_clash :: "string list \<Rightarrow> string \<Rightarrow> bool" where
  "no_clash feats c = list_all (\<lambda>g. c \<noteq> ''log_'' @ g) feats"

text \<open>
  The error entries of the blocks, named for the proofs: those of one range block, of the
  four range blocks in the order of the source, and of the cross-feature block.
\<close>

definition check_errors ::
  "table \<Rightarrow> stats \<Rightarrow> string \<Rightarrow> (real \<Rightarrow> real \<Rightarrow> row \<Rightarrow> bool) \<Rightarrow> error_entry list" where
  "check_errors df st feat test =
     (if has_column df feat then
        (case valid_ranges st feat of
           None \<Rightarrow> []
         | Some (lo, hi) \<Rightarrow> map (row_error (OutOfRange feat lo hi)) (filter (test lo hi) (rows df)))
      else [])"

definition range_errors :: "table \<Rightarrow> stats \<Rightarrow> error_entry list" where
  "range_errors df st =
     check_errors df st ''koi_period'' period_invalid @
     check_errors df st ''koi_prad'' (range_invalid ''koi_prad'') @
     check_errors df st ''koi_depth'' (range_invalid ''koi_depth'') @
     check_errors df st ''koi_teq'' (range_invalid ''koi_teq'')"

definition cross_errors :: "table \<Rightarrow> error_entry list" where
  "cross_errors df =
     (if has_column df ''koi_prad'' \<and> has_column df ''koi_srad''
      then map (row_error PlanetLargerThanStar) (filter radius_invalid (rows df)) else [])"

section \<open>Leakage filter and required columns\<close>

text \<open>\<^verbatim>\<open>validate_required_features\<close> and \<^verbatim>\<open>remove_leakage_features\<close>.\<close>

definition validate_required_features :: "table \<Rightarrow> string list \<Rightarrow> bool \<times> string list" where
  "validate_required_features df required =
     (let missing = filter (\<lambda>feat. \<not> has_column df feat) required
      in (length missing = 0, missing))"

definition leakage_features :: "string list" where
  "leakage_features = [''koi_score'', ''koi_pdisposition'']"

definition leakage_step :: "string \<Rightarrow> table \<Rightarrow> table" where
  "leakage_step feat df = (if has_column df feat then drop_column df feat else df)"

definition remove_leakage_features :: "table \<Rightarrow> table" where
  "remove_leakage_features df = fold leakage_step leakage_features df"

section \<open>Outlier suppressor\<close>

text \<open>
  \<^verbatim>\<open>remove_extreme_outliers\<close>. \<^verbatim>\<open>Series.quantile(q)\<close> interpolates linearly between the
  two order statistics around position \<open>(n - 1) * q\<close> of the sorted values. The source
  calls it on non-empty series only.
\<close>

definition quantile :: "real list \<Rightarrow> real \<Rightarrow> real" where
  "quantile xs q =
     (let s = sort xs;
          h = real (length s - 1) * q;
          i = nat \<lfloor>h\<rfloor>;
          g = h - real i
      in if i + 1 < length s then s ! i + (s ! (i + 1) - s ! i) * g else s ! i)"

definition outlier_invalid :: "table \<Rightarrow> string \<Rightarrow> row \<Rightarrow> bool" where
  "outlier_invalid df feat r =
     (let data = dropna_values df feat;
          Q1 = quantile data 0.25;
          Q3 = quantile data 0.75;
          IQR = Q3 - Q1;
          lower = Q1 - 5 * IQR;
          upper = Q3 + 5 * IQR
      in (case cells r feat of None \<Rightarrow> False | Some v \<Rightarrow> v < lower \<or> v > upper))"

definition outlier_step ::
  "table \<Rightarrow> string \<Rightarrow> bool list \<times> error_entry list \<Rightarrow> bool list \<times> error_entry list" where
  "outlier_step df feat state =
     (if has_column df feat then
        (if length (dropna_values df feat) = 0 then state
         else if list_ex (outlier_invalid df feat) (rows df)
           then apply_check df (outlier_invalid df feat) (ExtremeOutlier feat) state
           else state)
      else state)"

definition remove_extreme_outliers ::
  "table \<Rightarrow> string list \<Rightarrow> table \<times> error_entry list" where
  "remove_extreme_outliers df features =
     (case fold (outlier_step df) features (replicate (length (rows df)) True, []) of
        (keep, errs) \<Rightarrow> (select_mask df keep, errs))"

text \<open>Whether a loop pass of the suppressor marks a row, named for the proofs.\<close>

definition outlier_fails :: "table \<Rightarrow> string \<Rightarrow> row \<Rightarrow> bool" where
  "outlier_fails df feat r =
     (has_column df feat \<and> dropna_values df feat \<noteq> [] \<and> outlier_invalid df feat r)"

definition outlier_rejected :: "table \<Rightarrow> string list \<Rightarrow> row \<Rightarrow> bool" where
  "outlier_rejected df feats r = list_ex (\<lambda>feat. outlier_fails df feat r) feats"

definition outlier_errors :: "table \<Rightarrow> string list \<Rightarrow> error_entry list" where
  "outlier_errors df feats =
     concat (map (\<lambda>feat. map (row_error (ExtremeOutlier feat))
                    (filter (outlier_fails df feat) (rows df))) feats)"

section \<open>Feature lists of the orchestrator\<close>

text \<open>The literals at the head of \<^verbatim>\<open>preprocess_csv\<close>.\<close>

definition required_features :: "string list" where
  "required_features = [''koi_period'', ''koi_depth'', ''koi_duration'', ''koi_prad'']"

definition optional_features :: "string list" where
  "optional_features =
     [''koi_teq'', ''koi_insol'', ''koi_steff'', ''koi_slogg'',
      ''koi_srad'', ''koi_model_snr'', ''koi_impact'']"

definition all_features :: "string list" where
  "all_features = required_features @ optional_features"

section \<open>Pipeline orchestrator\<close>

text \<open>
  \<^verbatim>\<open>preprocess_csv\<close>. Reading the file and normalising the column names are input and
  renaming; the model starts from what they deliver: the normalised column names, taken
  to be distinct, and the data lines in file order, each with its identifier and its
  numeric cells. \<open>read_csv\<close> gives line \<open>i\<close> the index label \<open>i\<close>.
  \<open>written\<close> is the frame handed to \<^verbatim>\<open>to_csv\<close>, or \<open>None\<close> when the run writes no file; the
  index labels stay on its rows here so that a row of the output can be traced to its
  input line, although \<^verbatim>\<open>to_csv(index=False)\<close> does not write them.
\<close>

type_synonym csv_line = "string option \<times> (string \<Rightarrow> real option)"

definition read_csv :: "string list \<Rightarrow> csv_line list \<Rightarrow> table" where
  "read_csv cols lines =
     \<lparr>columns = cols,
      rows = map (\<lambda>(i, l). \<lparr>idx = i, kepoi = fst l, cells = snd l\<rparr>) (enumerate 0 lines)\<rparr>"

definition to_csv :: "table \<Rightarrow> string list \<times> real option list list" where
  "to_csv df = (columns df, map (\<lambda>r. map (cells r) (columns df)) (rows df))"

record result =
  success :: bool
  original_rows :: int
  processed_rows :: int
  removed_rows :: int
  errors :: "error_entry list"
  warnings :: "warning list"
  written :: "table option"

definition table_error :: "message \<Rightarrow> error_entry" where
  "table_error msg = \<lparr>err_row = - 1, err_message = msg\<rparr>"

text \<open>\<^verbatim>\<open>df[available_features]\<close>: the model features that are columns, in the model's order.\<close>

definition select_features :: "table \<Rightarrow> table" where
  "select_features df =
     (let available_features = filter (has_column df) all_features
      in \<lparr>columns = available_features,
          rows = map (\<lambda>r. \<lparr>idx = idx r, kepoi = None,
                              cells = (\<lambda>feat. if feat \<in> set available_features
                                               then cells r feat else None)\<rparr>) (rows df)\<rparr>)"

text \<open>Step 6: duplicates are removed when the identifier column exists.\<close>

definition remove_duplicates :: "table \<Rightarrow> table" where
  "remove_duplicates df =
     (if has_column df ''kepoi_name'' then drop_duplicates df else df)"

definition duplicate_warning :: "table \<Rightarrow> warning list" where
  "duplicate_warning df =
     (if has_column df ''kepoi_name'' then
        (let before = length (rows df);
             after = length (rows (drop_duplicates df))
         in if before > after then [RemovedDuplicates (before - after)] else [])
      else [])"

text \<open>The branch taken when the detector answers "already transformed".\<close>

definition short_circuit :: "table \<Rightarrow> result \<Rightarrow> result" where
  "short_circuit df res =
     (let res1 = res\<lparr>warnings := warnings res @ [DetectedPreprocessed]\<rparr> in
      case validate_required_features df required_features of
        (is_valid, missing) \<Rightarrow>
          if \<not> is_valid
          then res1\<lparr>errors := errors res1 @ [table_error (MissingColumns missing)]\<rparr>
          else
            (let out = select_features df
             in res1\<lparr>written := Some out,
                     processed_rows := int (length (rows out)),
                     removed_rows := 0,
                     success := True\<rparr>))"

text \<open>Steps 4 to 12, the branch for raw input.\<close>

definition raw_path :: "table \<Rightarrow> stats \<Rightarrow> result \<Rightarrow> result" where
  "raw_path df st res =
     (case validate_required_features df required_features of
        (is_valid, missing) \<Rightarrow>
          if \<not> is_valid
          then res\<lparr>errors := errors res @ [table_error (MissingColumns missing)]\<rparr>
          else
            (let df1 = remove_leakage_features df;
                 res1 = res\<lparr>warnings := warnings res @ duplicate_warning df1\<rparr>;
                 df2 = remove_duplicates df1
             in case validate_physical_ranges df2 st of
                  Inl e \<Rightarrow> res1\<lparr>errors := errors res1 @ [table_error e]\<rparr>
                | Inr (df3, range_errs) \<Rightarrow>
                    (let res2 = res1\<lparr>errors := errors res1 @ range_errs\<rparr> in
                     case impute_missing_values df3 required_features optional_features st of
                       (df4, imputation_errs) \<Rightarrow>
                         (let res3 = res2\<lparr>errors := errors res2 @ imputation_errs\<rparr>;
                              df5 = apply_log_transforms df4 st
                          in case remove_extreme_outliers df5 all_features of
                               (df6, outlier_errs) \<Rightarrow>
                                 (let res4 = res3\<lparr>errors := errors res3 @ outlier_errs\<rparr>;
                                      df7 = select_features df6
                                  in res4\<lparr>written := Some df7,
                                          processed_rows := int (length (rows df7)),
                                          removed_rows :=
                                            original_rows res4 - int (length (rows df7)),
                                          success := True\<rparr>)))))"

definition initial_result :: result where
  "initial_result =
     \<lparr>success = False, original_rows = 0, processed_rows = 0, removed_rows = 0,
      errors = [], warnings = [], written = None\<rparr>"

definition preprocess_csv :: "string list \<Rightarrow> csv_line list \<Rightarrow> stats \<Rightarrow> result" where
  "preprocess_csv cols lines st =
     (let df = read_csv cols lines;
          res = initial_result\<lparr>original_rows := int (length (rows df))\<rparr>
      in if length (rows df) = 0
         then res\<lparr>errors := errors res @ [table_error CsvEmpty]\<rparr>
         else if is_already_preprocessed df then short_circuit df res
         else raw_path df st res)"

text \<open>
  The index labels of the rows of the output, empty when no file is written; and the
  frame that leaves duplicate resolution in the raw branch.
\<close>

definition output_indices :: "result \<Rightarrow> nat list" where
  "output_indices res = (case written res of None \<Rightarrow> [] | Some t \<Rightarrow> map idx (rows t))"

definition deduplicated :: "string list \<Rightarrow> csv_line list \<Rightarrow> table" where
  "deduplicated cols lines = remove_duplicates (remove_leakage_features (read_csv cols lines))"

text \<open>
  What a per-row message says about the cells of a line. An outlier is relative to the
  batch, so the line alone cannot show it; table-level messages describe no line.
\<close>

definition fault_at :: "(string \<Rightarrow> real option) \<Rightarrow> message \<Rightarrow> bool" where
  "fault_at c msg =
     (case msg of
        OutOfRange feat lo hi \<Rightarrow>
          (case c feat of
             None \<Rightarrow> False
           | Some v \<Rightarrow> if feat = ''koi_period'' then v \<le> lo \<or> v > hi else v < lo \<or> v > hi)
      | PlanetLargerThanStar \<Rightarrow>
          (case c ''koi_prad'' of
             None \<Rightarrow> False
           | Some p \<Rightarrow> (case c ''koi_srad'' of None \<Rightarrow> False | Some s \<Rightarrow> p > s * 109.1))
      | RequiredMissing feat \<Rightarrow> c feat = None
      | ExtremeOutlier feat \<Rightarrow> True
      | CsvEmpty \<Rightarrow> False
      | MissingColumns missing \<Rightarrow> False
      | Unexpected what \<Rightarrow> False)"

text \<open>Whether a message names one of the leakage columns, which the raw branch drops.\<close>

definition names_leakage :: "message \<Rightarrow> bool" where
  "names_leakage msg =
     (case msg of
        OutOfRange feat lo hi \<Rightarrow> feat \<in> set leakage_features
      | RequiredMissing feat \<Rightarrow> feat \<in> set leakage_features
      | ExtremeOutlier feat \<Rightarrow> False
      | PlanetLargerThanStar \<Rightarrow> False
      | CsvEmpty \<Rightarrow> False
      | MissingColumns missing \<Rightarrow> False
      | Unexpected what \<Rightarrow> False)"

text \<open>
  The data lines of a frame, as a later run reads them back from a file; and the table that
  holds the log-transformed equivalent of a raw table: the loaded table after the
  magnitude transformer.
\<close>

definition csv_lines :: "table \<Rightarrow> csv_line list" where
  "csv_lines df = map (\<lambda>r. (kepoi r, cells r)) (rows df)"

definition log_equivalent :: "string list \<Rightarrow> csv_line list \<Rightarrow> stats \<Rightarrow> table" where
  "log_equivalent cols lines st = apply_log_transforms (read_csv cols lines) st"

text \<open>Two frames that agree on every column except, possibly, the leakage columns.\<close>

definition agree_off_leakage :: "table \<Rightarrow> table \<Rightarrow> bool" where
  "agree_off_leakage a b =
     (length (rows a) = length (rows b) \<and>
      (\<forall>c. c \<notin> set leakage_features \<longrightarrow>
           has_column a c = has_column b c \<and> column a c = column b c))"

text \<open>No optional feature that is a column has a missing value in the line.\<close>

definition optional_complete :: "string list \<Rightarrow> csv_line \<Rightarrow> bool" where
  "optional_complete cols l =
     list_all (\<lambda>feat. snd l feat \<noteq> None) (filter (\<lambda>feat. feat \<in> set cols) optional_features)"

text \<open>
  What an outlier entry says. The suppressor of the raw branch works on the frame that
  leaves the magnitude transformer (\<open>suppressor_input\<close>, \<open>None\<close> when the range filter
  raises). The cell of a feature in a line after imputation is \<open>imputed_cell\<close>. A row of
  that frame carries a line when every model feature of the row holds the line's imputed
  cell, transformed as often as the log-transform list names the feature and the loop pass
  was not skipped (at most once for a list without repetitions). \<open>outlier_at\<close> says that the
  labels of the frame are distinct, and that the row labelled \<open>i\<close> carries line \<open>i\<close> and
  lies outside the fence of the feature.
\<close>

definition suppressor_input :: "string list \<Rightarrow> csv_line list \<Rightarrow> stats \<Rightarrow> table option" where
  "suppressor_input cols lines st =
     (case validate_physical_ranges (deduplicated cols lines) st of
        Inl e \<Rightarrow> None
      | Inr res \<Rightarrow>
          Some (apply_log_transforms
                  (fst (impute_missing_values (fst res) required_features optional_features st))
                  st))"

definition imputed_cell ::
  "stats \<Rightarrow> string list \<Rightarrow> (string \<Rightarrow> real option) \<Rightarrow> string \<Rightarrow> real option" where
  "imputed_cell st cols c feat =
     (if feat \<in> set optional_features \<and> feat \<in> set cols
      then (case c feat of None \<Rightarrow> medians_pretransform st feat | Some v \<Rightarrow> Some v)
      else c feat)"

definition carries_line :: "stats \<Rightarrow> string list \<Rightarrow> (string \<Rightarrow> real option) \<Rightarrow> row \<Rightarrow> bool" where
  "carries_line st cols c r =
     list_all
       (\<lambda>feat. list_ex (\<lambda>m. cells r feat = (log_cell ^^ m) (imputed_cell st cols c feat))
                 [0..<Suc (count_list (log_transform_features st) feat)])
       all_features"

definition outlier_at :: "string list \<Rightarrow> csv_line list \<Rightarrow> stats \<Rightarrow> nat \<Rightarrow> string \<Rightarrow> bool" where
  "outlier_at cols lines st i feat =
     (case suppressor_input cols lines st of
        None \<Rightarrow> False
      | Some d5 \<Rightarrow>
          distinct (map idx (rows d5)) \<and>
          list_ex (\<lambda>r. idx r = i \<and> outlier_fails d5 feat r \<and>
                        carries_line st cols (snd (lines ! i)) r) (rows d5))"

section \<open>Example inputs\<close>

text \<open>
  Concrete frames on which the theorems below are instantiated. \<open>mk_row\<close> builds a row
  from its index label, its identifier and the list of its non-missing cells.
\<close>

definition mk_row :: "nat \<Rightarrow> string option \<Rightarrow> (string \<times> real) list \<Rightarrow> row" where
  "mk_row i k kv = \<lparr>idx = i, kepoi = k, cells = map_of kv\<rparr>"

definition no_medians :: "string \<Rightarrow> real option" where
  "no_medians feat = None"

definition period_at_lower :: row where
  "period_at_lower = mk_row 0 None [(''koi_period'', 0.2)]"

definition period_above_lower :: row where
  "period_above_lower = mk_row 1 None [(''koi_period'', 0.2000001)]"

definition period_at_upper :: row where
  "period_at_upper = mk_row 2 None [(''koi_period'', 730)]"

definition period_above_upper :: row where
  "period_above_upper = mk_row 3 None [(''koi_period'', 730.0001)]"

definition period_table :: table where
  "period_table =
     \<lparr>columns = [''koi_period''],
      rows = [period_at_lower, period_above_lower, period_at_upper, period_above_upper]\<rparr>"

definition giant_with_star :: row where
  "giant_with_star = mk_row 0 None [(''koi_prad'', 1000), (''koi_srad'', 1)]"

definition giant_without_star :: row where
  "giant_without_star = mk_row 1 None [(''koi_prad'', 1000)]"

definition large_without_star :: row where
  "large_without_star = mk_row 2 None [(''koi_prad'', 25)]"

definition radius_table :: table where
  "radius_table =
     \<lparr>columns = [''koi_prad'', ''koi_srad''],
      rows = [giant_with_star, giant_without_star, large_without_star]\<rparr>"

definition weak_first :: row where
  "weak_first = mk_row 0 (Some ''K00001.01'') [(''koi_model_snr'', 5)]"

definition strong_second :: row where
  "strong_second = mk_row 1 (Some ''K00001.01'') [(''koi_model_snr'', 50)]"

definition twin_table :: table where
  "twin_table =
     \<lparr>columns = [''kepoi_name'', ''koi_model_snr''], rows = [weak_first, strong_second]\<rparr>"

text \<open>
  The same two rows as lines of a file with the required columns, for the full run.
\<close>

definition twin_cols :: "string list" where
  "twin_cols =
     [''kepoi_name'', ''koi_period'', ''koi_depth'', ''koi_duration'', ''koi_prad'',
      ''koi_model_snr'']"

definition twin_cells :: "real \<Rightarrow> string \<Rightarrow> real option" where
  "twin_cells snr =
     map_of [(''koi_period'', 10), (''koi_depth'', 10), (''koi_duration'', 1), (''koi_prad'', 10),
             (''koi_model_snr'', snr)]"

definition twin_lines :: "csv_line list" where
  "twin_lines = [(Some ''K00001.01'', twin_cells 5), (Some ''K00001.01'', twin_cells 50)]"

definition teq_median :: "string \<Rightarrow> real option" where
  "teq_median = map_of [(''koi_teq'', 1000)]"

definition cool_batch :: table where
  "cool_batch =
     \<lparr>columns = [''koi_period'', ''koi_teq''],
      rows = [mk_row 0 None [(''koi_period'', 1), (''koi_teq'', 200)],
              mk_row 1 None [(''koi_period'', 2)]]\<rparr>"

definition hot_batch :: table where
  "hot_batch =
     \<lparr>columns = [''koi_period'', ''koi_teq''],
      rows = [mk_row 0 None [(''koi_period'', 3), (''koi_teq'', 2900)],
              mk_row 1 None [(''koi_period'', 4)]]\<rparr>"

definition dark_table :: table where
  "dark_table = \<lparr>columns = [''koi_insol''], rows = [mk_row 0 None [(''koi_insol'', 0)]]\<rparr>"

definition mixed_table :: table where
  "mixed_table =
     \<lparr>columns = [''koi_insol''],
      rows = [mk_row 0 None [(''koi_insol'', 10)],
              mk_row 1 None [(''koi_insol'', 0)],
              mk_row 2 None [(''koi_insol'', - 5)],
              mk_row 3 None []]\<rparr>"

text \<open>
  The end-to-end scenario of the specification: five lines, of which line 1 repeats the
  identifier of line 0, line 2 has the period \<open>-1\<close>, line 3 lacks the duration, and lines 0
  and 4 are valid.
\<close>

definition survey_cols :: "string list" where
  "survey_cols = [''kepoi_name'', ''koi_period'', ''koi_depth'', ''koi_duration'', ''koi_prad'']"

definition valid_cells :: "string \<Rightarrow> real option" where
  "valid_cells =
     map_of [(''koi_period'', 10), (''koi_depth'', 10), (''koi_duration'', 1), (''koi_prad'', 10)]"

definition survey_lines :: "csv_line list" where
  "survey_lines =
     [(Some ''K1'', valid_cells),
      (Some ''K1'', valid_cells),
      (Some ''K2'', valid_cells(''koi_period'' := Some (- 1))),
      (Some ''K3'', valid_cells(''koi_duration'' := None)),
      (Some ''K4'', valid_cells)]"

text \<open>A table in log units whose only line has no duration.\<close>

definition logged_cols :: "string list" where
  "logged_cols = [''koi_period'', ''koi_depth'', ''koi_duration'', ''koi_prad'']"

definition logged_cells :: "string \<Rightarrow> real option" where
  "logged_cells = map_of [(''koi_period'', 1), (''koi_depth'', 2), (''koi_prad'', 0.5)]"

definition logged_lines :: "csv_line list" where
  "logged_lines = [(None, logged_cells)]"

definition survey_error :: error_entry where
  "survey_error = \<lparr>err_row = 2, err_message = OutOfRange ''koi_period'' 0.2 730\<rparr>"

text \<open>
  A raw table of six lines: line 0 lacks the duration, lines 1 to 4 are valid with the
  duration 1, and line 5 has the duration 2, which the suppressor rejects.
\<close>

definition transit_lines :: "csv_line list" where
  "transit_lines =
     [(None, valid_cells(''koi_duration'' := None)),
      (None, valid_cells),
      (None, valid_cells),
      (None, valid_cells),
      (None, valid_cells),
      (None, valid_cells(''koi_duration'' := Some 2))]"

definition transit_error :: error_entry where
  "transit_error = \<lparr>err_row = 5, err_message = ExtremeOutlier ''koi_duration''\<rparr>"

text \<open>
  Two raw tables of one line each: a valid line, and a line whose transit depth 1 lies below
  the valid range.
\<close>

definition single_lines :: "csv_line list" where
  "single_lines = [(None, valid_cells)]"

definition shallow_lines :: "csv_line list" where
  "shallow_lines = [(None, valid_cells(''koi_depth'' := Some 1))]"

definition single_equivalent :: table where
  "single_equivalent = log_equivalent logged_cols single_lines (reference_stats no_medians)"

definition shallow_equivalent :: table where
  "shallow_equivalent = log_equivalent logged_cols shallow_lines (reference_stats no_medians)"



section \<open>Properties of the format detector\<close>

lemma series_min_Min: "xs \<noteq> [] \<Longrightarrow> series_min xs = Min (set xs)"
  by (cases xs) (simp, simp only: series_min.simps Min.set_eq_fold)

lemma series_max_Max: "xs \<noteq> [] \<Longrightarrow> series_max xs = Max (set xs)"
  by (cases xs) (simp, simp only: series_max.simps Max.set_eq_fold)

lemma Min_le_Max_list: "xs \<noteq> [] \<Longrightarrow> Min (set xs) \<le> Max (set (xs :: real list))"
  by (simp add: Min_le_iff)

lemma fold_detect_step:
  "fold (detect_step df) fs (i, t) =
     (i + length (filter (counts_vote df) (filter (counts_part df) fs)),
      t + length (filter (counts_part df) fs))"
  by (induction fs arbitrary: i t)
     (simp_all add: detect_step_def counts_part_def counts_vote_def Let_def)

lemma votes_transformed_inside:
  assumes "feat \<in> set detector_log_features" and "vs \<noteq> []"
  shows "votes_transformed feat (series_min vs) (series_max vs) =
           (inside (calibrated_range feat) (Min (set vs)) \<and>
            inside (calibrated_range feat) (Max (set vs)))"
proof -
  have le: "Min (set vs) \<le> Max (set vs)" using assms(2) by (rule Min_le_Max_list)
  have mm: "series_min vs = Min (set vs)" "series_max vs = Max (set vs)"
    using assms(2) by (simp_all add: series_min_Min series_max_Max)
  from assms(1) have "feat = ''koi_period'' \<or> feat = ''koi_depth'' \<or> feat = ''koi_prad'' \<or>
      feat = ''koi_insol'' \<or> feat = ''koi_srad'' \<or> feat = ''koi_model_snr''"
    by (simp add: detector_log_features_def)
  then show ?thesis
    unfolding mm using le
    by (elim disjE) (auto simp: votes_transformed_def calibrated_range_def inside_def)
qed

lemma participating_alt:
  "participating df = filter (counts_part df) (filter (has_column df) detector_log_features)"
  by (simp add: participating_def counts_part_def conj_commute)

lemma voting_alt:
  "voting df = filter (counts_vote df) (participating df)"
  unfolding voting_def
proof (rule filter_cong [OF refl])
  fix feat assume "feat \<in> set (participating df)"
  then have "feat \<in> set detector_log_features" "dropna_values df feat \<noteq> []"
    by (auto simp: participating_def)
  then show "(inside (calibrated_range feat) (Min (set (dropna_values df feat))) \<and>
         inside (calibrated_range feat) (Max (set (dropna_values df feat)))) = counts_vote df feat"
    by (simp add: counts_vote_def votes_transformed_inside)
qed

lemma fold_detect_counts:
  "fold (detect_step df) (filter (has_column df) detector_log_features) (0, 0) =
     (length (voting df), length (participating df))"
  by (simp only: fold_detect_step voting_alt participating_alt add_0)

text \<open>
  Claim C9. The detector answers "already transformed" exactly when at least half of the
  participating log features (present in the table, with a non-missing value) have their
  observed minimum and maximum inside the feature's calibrated interval, and answers "raw"
  when no feature participates. It is a function of the table alone.
\<close>

theorem detector_meets_spec: "is_already_preprocessed df = spec_detector df"
proof (cases "participating df = []")
  case True
  then show ?thesis
    by (simp add: is_already_preprocessed_def spec_detector_def Let_def fold_detect_counts
        del: filter_filter)
next
  case False
  have "filter (has_column df) detector_log_features \<noteq> []"
  proof
    assume "filter (has_column df) detector_log_features = []"
    then have "participating df = []" by (simp only: participating_alt filter.simps)
    with False show False by contradiction
  qed
  with False show ?thesis
    by (simp add: is_already_preprocessed_def spec_detector_def Let_def fold_detect_counts
        del: filter_filter)
qed

section \<open>Properties of the physical plausibility filter\<close>

lemma select_mask_map:
  "select_mask df (map K (rows df)) = df\<lparr>rows := filter K (rows df)\<rparr>"
proof -
  have "map snd (filter fst (zip (map K xs) xs)) = filter K xs" for xs :: "row list"
    by (induction xs) simp_all
  then show ?thesis by (simp add: select_mask_def)
qed

lemma apply_check_map:
  "apply_check df t m (map K (rows df), errs) =
     (map (\<lambda>r. K r \<and> \<not> t r) (rows df), errs @ map (row_error m) (filter t (rows df)))"
proof -
  have "map2 (\<lambda>k r. k \<and> \<not> t r) (map K xs) xs = map (\<lambda>r. K r \<and> \<not> t r) xs" for xs :: "row list"
    by (induction xs) simp_all
  then show ?thesis by (simp add: apply_check_def)
qed

lemma range_check_map:
  assumes "range_check df st feat test (map K (rows df), errs) = Inr s"
  shows "s = (map (\<lambda>r. K r \<and> \<not> range_fails df st feat test r) (rows df),
              errs @ check_errors df st feat test)"
  using assms
  by (auto simp: range_check_def range_fails_def check_errors_def apply_check_map
           split: if_splits option.splits)

lemma validate_result:
  assumes "validate_physical_ranges df st = Inr (df', errs)"
  shows "df' = df\<lparr>rows := filter (\<lambda>r. \<not> row_rejected df st r) (rows df)\<rparr>"
    and "errs = range_errors df st @ cross_errors df"
proof -
  have init: "replicate (length (rows df)) True = map (\<lambda>r. True) (rows df)"
    by (simp add: map_replicate_const)
  from assms obtain s1 s2 s3 s4 where
    1: "range_check df st ''koi_period'' period_invalid (map (\<lambda>r. True) (rows df), []) = Inr s1" and
    2: "range_check df st ''koi_prad'' (range_invalid ''koi_prad'') s1 = Inr s2" and
    3: "range_check df st ''koi_depth'' (range_invalid ''koi_depth'') s2 = Inr s3" and
    4: "range_check df st ''koi_teq'' (range_invalid ''koi_teq'') s3 = Inr s4" and
    5: "(let s5 = (if has_column df ''koi_prad'' \<and> has_column df ''koi_srad''
                     then apply_check df radius_invalid PlanetLargerThanStar s4
                     else s4)
           in Inr (select_mask df (fst s5), snd s5)) = (Inr (df', errs) :: message + table \<times> error_entry list)"
    unfolding validate_physical_ranges_def init
    by (auto split: sum.splits)
  note e1 = range_check_map [OF 1]
  note e2 = range_check_map [OF 2 [unfolded e1]]
  note e3 = range_check_map [OF 3 [unfolded e2]]
  note e4 = range_check_map [OF 4 [unfolded e3]]
  have keep: "(\<lambda>r. \<not> row_rejected df st r) =
     (\<lambda>r. ((((True \<and> \<not> range_fails df st ''koi_period'' period_invalid r) \<and>
            \<not> range_fails df st ''koi_prad'' (range_invalid ''koi_prad'') r) \<and>
            \<not> range_fails df st ''koi_depth'' (range_invalid ''koi_depth'') r) \<and>
            \<not> range_fails df st ''koi_teq'' (range_invalid ''koi_teq'') r) \<and> \<not> cross_rejected df r)"
    by (auto simp: row_rejected_def range_rejected_def)
  show "df' = df\<lparr>rows := filter (\<lambda>r. \<not> row_rejected df st r) (rows df)\<rparr>"
    using 5 unfolding e4 keep
    by (auto simp: Let_def apply_check_map select_mask_map cross_rejected_def
             split: if_splits intro!: arg_cong [where f = "\<lambda>K. df\<lparr>rows := filter K (rows df)\<rparr>"])
  show "errs = range_errors df st @ cross_errors df"
    using 5 unfolding e4
    by (auto simp: Let_def apply_check_map cross_errors_def range_errors_def split: if_splits)
qed

lemma validate_reference:
  "\<exists>res. validate_physical_ranges df (reference_stats med) = Inr res"
  by (simp add: validate_physical_ranges_def range_check_def reference_stats_def default_ranges_def
        Let_def split: sum.splits option.splits prod.splits)


lemma survives_iff:
  assumes "r \<in> set (rows df)" and "validate_physical_ranges df st = Inr res"
  shows "survives df st r = (\<not> row_rejected df st r)"
proof -
  obtain df' errs where res: "res = (df', errs)" by (cases res)
  from validate_result(1) [OF assms(2) [unfolded res]] assms
  show ?thesis by (simp add: survives_def res)
qed

lemma period_fails_reference:
  "has_column df ''koi_period'' \<Longrightarrow>
   range_fails df (reference_stats med) ''koi_period'' period_invalid r = period_invalid 0.2 730 r"
  by (simp add: range_fails_def reference_stats_def default_ranges_def)

text \<open>
  Claim C7. Under the default reference statistics the period range is \<open>(0.2, 730]\<close>: a row
  that no other check rejects is rejected with \<open>koi_period = 0.2\<close>, retained with
  \<open>koi_period = 0.2000001\<close>, retained with \<open>koi_period = 730\<close> and rejected with
  \<open>koi_period = 730.0001\<close>. The lower bound is exclusive, the upper bound inclusive.
\<close>

theorem period_bounds:
  assumes col: "has_column df ''koi_period''" and mem: "r \<in> set (rows df)"
    and prad: "\<not> range_fails df (reference_stats med) ''koi_prad'' (range_invalid ''koi_prad'') r"
    and depth: "\<not> range_fails df (reference_stats med) ''koi_depth'' (range_invalid ''koi_depth'') r"
    and teq: "\<not> range_fails df (reference_stats med) ''koi_teq'' (range_invalid ''koi_teq'') r"
    and cross: "\<not> cross_rejected df r"
  shows "(cells r ''koi_period'' = Some 0.2 \<longrightarrow> \<not> survives df (reference_stats med) r) \<and>
         (cells r ''koi_period'' = Some 0.2000001 \<longrightarrow> survives df (reference_stats med) r) \<and>
         (cells r ''koi_period'' = Some 730 \<longrightarrow> survives df (reference_stats med) r) \<and>
         (cells r ''koi_period'' = Some 730.0001 \<longrightarrow> \<not> survives df (reference_stats med) r)"
proof -
  obtain res where "validate_physical_ranges df (reference_stats med) = Inr res"
    using validate_reference by blast
  from survives_iff [OF mem this]
  have "survives df (reference_stats med) r = (\<not> period_invalid 0.2 730 r)"
    using prad depth teq cross
    by (simp add: row_rejected_def range_rejected_def period_fails_reference [OF col])
  then show ?thesis by (simp add: period_invalid_def)
qed

lemma period_rows_simps:
  "cells period_at_lower ''koi_period'' = Some 0.2"
  "cells period_above_lower ''koi_period'' = Some 0.2000001"
  "cells period_at_upper ''koi_period'' = Some 730"
  "cells period_above_upper ''koi_period'' = Some 730.0001"
  by (simp_all add: period_at_lower_def period_above_lower_def period_at_upper_def
      period_above_upper_def mk_row_def)

text \<open>The four rows of the claim, in a frame whose only column is the period.\<close>

theorem period_bounds_witness:
  "\<not> survives period_table (reference_stats no_medians) period_at_lower \<and>
   survives period_table (reference_stats no_medians) period_above_lower \<and>
   survives period_table (reference_stats no_medians) period_at_upper \<and>
   \<not> survives period_table (reference_stats no_medians) period_above_upper"
proof -
  have col: "has_column period_table ''koi_period''"
    by (simp add: has_column_def period_table_def)
  have others: "\<not> range_fails period_table st ''koi_prad'' test r"
    "\<not> range_fails period_table st ''koi_depth'' test r"
    "\<not> range_fails period_table st ''koi_teq'' test r"
    "\<not> cross_rejected period_table r" for st test r
    by (simp_all add: range_fails_def cross_rejected_def has_column_def period_table_def)
  have mem: "period_at_lower \<in> set (rows period_table)"
    "period_above_lower \<in> set (rows period_table)"
    "period_at_upper \<in> set (rows period_table)"
    "period_above_upper \<in> set (rows period_table)"
    by (simp_all add: period_table_def)
  show ?thesis
    using period_bounds [OF col mem(1) others, of no_medians]
      period_bounds [OF col mem(2) others, of no_medians]
      period_bounds [OF col mem(3) others, of no_medians]
      period_bounds [OF col mem(4) others, of no_medians]
    by (simp add: period_rows_simps)
qed

text \<open>
  Claim C8, as amended. The cross-feature constraint \<open>koi_prad \<le> koi_srad * 109.1\<close> is
  evaluated only when both features are present. A row with \<open>koi_prad = 1000\<close> and
  \<open>koi_srad = 1\<close> is rejected. When either value is missing in the row, or either column
  is absent, the cross-feature check is skipped: the row is retained exactly when the
  per-feature range checks accept it.
\<close>

theorem cross_constraint:
  assumes mem: "r \<in> set (rows df)" and ok: "validate_physical_ranges df st = Inr res"
  shows "(has_column df ''koi_prad'' \<and> has_column df ''koi_srad'' \<and>
          cells r ''koi_prad'' = Some 1000 \<and> cells r ''koi_srad'' = Some 1
            \<longrightarrow> \<not> survives df st r) \<and>
         (cells r ''koi_prad'' = None \<or> cells r ''koi_srad'' = None \<or>
          \<not> has_column df ''koi_prad'' \<or> \<not> has_column df ''koi_srad''
            \<longrightarrow> survives df st r = (\<not> range_rejected df st r))"
  unfolding survives_iff [OF mem ok]
  by (auto simp: row_rejected_def cross_rejected_def radius_invalid_def split: option.splits)

text \<open>
  Under the default ranges: the row with radius 1000 and stellar radius 1 is rejected, a
  row with radius 25 and no stellar radius is retained.
\<close>

theorem cross_constraint_witness:
  "\<not> survives radius_table (reference_stats no_medians) giant_with_star \<and>
   survives radius_table (reference_stats no_medians) large_without_star"
proof -
  obtain res where ok: "validate_physical_ranges radius_table (reference_stats no_medians) = Inr res"
    using validate_reference by blast
  have mem: "giant_with_star \<in> set (rows radius_table)" "large_without_star \<in> set (rows radius_table)"
    by (simp_all add: radius_table_def)
  have "\<not> range_rejected radius_table (reference_stats no_medians) large_without_star"
    by (simp add: range_rejected_def range_fails_def has_column_def radius_table_def
        reference_stats_def default_ranges_def range_invalid_def large_without_star_def mk_row_def)
  then show ?thesis
    using cross_constraint [OF mem(1) ok] cross_constraint [OF mem(2) ok]
    by (simp add: has_column_def radius_table_def giant_with_star_def large_without_star_def
        mk_row_def)
qed

text \<open>
  Claim C8 as stated fails under the default ranges: the row with \<open>koi_prad = 1000\<close> and
  \<open>koi_srad\<close> missing is not retained, because the radius range \<open>[0.5, 30]\<close> rejects it.
\<close>

theorem giant_without_star_rejected:
  "giant_without_star \<in> set (rows radius_table) \<and>
   cells giant_without_star ''koi_prad'' = Some 1000 \<and>
   cells giant_without_star ''koi_srad'' = None \<and>
   \<not> survives radius_table (reference_stats no_medians) giant_without_star"
proof -
  obtain res where ok: "validate_physical_ranges radius_table (reference_stats no_medians) = Inr res"
    using validate_reference by blast
  have mem: "giant_without_star \<in> set (rows radius_table)"
    by (simp add: radius_table_def)
  have "range_fails radius_table (reference_stats no_medians) ''koi_prad'' (range_invalid ''koi_prad'')
          giant_without_star"
    by (simp add: range_fails_def has_column_def radius_table_def
        reference_stats_def default_ranges_def range_invalid_def giant_without_star_def mk_row_def)
  then have "row_rejected radius_table (reference_stats no_medians) giant_without_star"
    by (simp add: row_rejected_def range_rejected_def)
  with survives_iff [OF mem ok] mem show ?thesis
    by (simp add: giant_without_star_def mk_row_def)
qed

section \<open>Properties of duplicate resolution\<close>

lemma keep_first_keys:
  "kepoi ` set (keep_first seen rs) = kepoi ` set rs - set seen"
  by (induction rs arbitrary: seen) auto

lemma keep_first_unseen: "r \<in> set (keep_first seen rs) \<Longrightarrow> kepoi r \<notin> set seen"
  using keep_first_keys [of seen rs] by blast

lemma keep_first_distinct: "distinct (map kepoi (keep_first seen rs))"
  by (induction rs arbitrary: seen) (auto dest: keep_first_unseen)

lemma keep_first_is_first:
  "r \<in> set (keep_first seen rs) \<Longrightarrow> find (\<lambda>x. kepoi x = kepoi r) rs = Some r"
proof (induction rs arbitrary: seen)
  case Nil
  then show ?case by simp
next
  case (Cons a rs)
  show ?case
  proof (cases "kepoi a = kepoi r")
    case True
    have "r \<notin> set (keep_first (kepoi a # seen) rs)"
      using True by (auto dest: keep_first_unseen)
    moreover have "r \<notin> set (keep_first seen rs)" if "kepoi a \<in> set seen"
      using True that by (auto dest: keep_first_unseen)
    ultimately show ?thesis using Cons.prems True by (auto split: if_splits)
  next
    case False
    then show ?thesis using Cons by (auto split: if_splits)
  qed
qed

lemma keep_first_subseq: "subseq (keep_first seen rs) rs"
  by (induction rs arbitrary: seen) auto

text \<open>
  What the stage of \<^verbatim>\<open>preprocess_csv\<close> does: it keeps one row for each value of
  \<open>kepoi_name\<close>, the first one in the order of the input, and the rows kept stay in their
  order. The signal-to-noise ratio is not read.
\<close>

lemma duplicates_keep_first:
  "distinct (map kepoi (rows (drop_duplicates df))) \<and>
   kepoi ` set (rows (drop_duplicates df)) = kepoi ` set (rows df) \<and>
   subseq (rows (drop_duplicates df)) (rows df) \<and>
   (\<forall>r \<in> set (rows (drop_duplicates df)). find (\<lambda>x. kepoi x = kepoi r) (rows df) = Some r) \<and>
   columns (drop_duplicates df) = columns df"
  by (simp add: drop_duplicates_def keep_first_distinct keep_first_keys keep_first_subseq
      keep_first_is_first)

lemma twin_rows: "rows (drop_duplicates twin_table) = [weak_first]"
  by (simp add: drop_duplicates_def twin_table_def weak_first_def strong_second_def mk_row_def)

section \<open>Properties of the imputer\<close>

lemma fill_step_columns: "columns (fill_step med feat df) = columns df"
  by (simp add: fill_step_def split: option.splits)

lemma fold_fill_step_columns: "columns (fold (fill_step med) feats df) = columns df"
  by (induction feats arbitrary: df) (simp_all add: fill_step_columns)

lemma fill_step_rows:
  "rows (fill_step med feat df) =
     map (fill_row med (filter (has_column df) [feat])) (rows df)"
proof -
  have same: "map (fill_row med []) xs = xs" for xs :: "row list"
    by (induction xs) (simp_all add: fill_row_def)
  have none: "map (fill_row med [feat]) xs = xs"
    if "\<not> list_ex (\<lambda>r. cells r feat = None) xs" for xs :: "row list"
    using that
    by (induction xs) (auto simp: fill_row_def fun_eq_iff  split: option.splits intro!: row.equality)
  have nomed: "map (fill_row med [feat]) xs = xs" if "med feat = None" for xs :: "row list"
    using that
    by (induction xs) (auto simp: fill_row_def fun_eq_iff split: option.splits intro!: row.equality)
  have fill: "fillna feat m r = fill_row med [feat] r" if "med feat = Some m" for m r
    using that
    by (auto simp: fill_row_def fillna_def fun_eq_iff split: option.splits intro!: row.equality)
  show ?thesis
    by (auto simp: fill_step_def same none nomed fill split: option.splits)
qed

lemma fill_row_append:
  "fill_row med bs (fill_row med as r) = fill_row med (as @ bs) r"
  by (auto simp: fill_row_def fun_eq_iff split: option.splits intro!: row.equality)

lemma fold_fill_step_rows:
  "rows (fold (fill_step med) feats df) =
     map (fill_row med (filter (has_column df) feats)) (rows df)"
proof (induction feats arbitrary: df)
  case Nil
  have "map (fill_row med []) xs = xs" for xs :: "row list"
    by (induction xs) (simp_all add: fill_row_def)
  then show ?case by simp
next
  case (Cons f feats)
  have hc: "has_column (fill_step med f df) = has_column df"
    by (simp add: has_column_def fun_eq_iff fill_step_columns)
  have "filter (has_column df) (f # feats) = filter (has_column df) [f] @ filter (has_column df) feats"
    by simp
  then show ?case
    by (simp only: fold_simps Cons.IH hc fill_step_rows map_map o_def fill_row_append)
qed

lemma impute_rows:
  "rows (fst (impute_missing_values df required optional st)) =
     map (fill_row (medians_pretransform st) (filter (has_column df) optional))
         (filter (has_required df required) (rows df))"
proof -
  have hc: "has_column (dropna_subset df fs) = has_column df" for fs
    by (simp add: has_column_def fun_eq_iff dropna_subset_def)
  have hr: "has_required df required =
      (\<lambda>r. list_all (\<lambda>feat. cells r feat \<noteq> None) (filter (has_column df) required))"
    by (simp add: fun_eq_iff has_required_def)
  show ?thesis
    by (simp add: impute_missing_values_def Let_def fold_fill_step_rows hc)
       (simp add: dropna_subset_def hr)
qed

lemma impute_columns:
  "columns (fst (impute_missing_values df required optional st)) = columns df"
  by (simp add: impute_missing_values_def Let_def fold_fill_step_columns dropna_subset_def)

text \<open>
  Claim C5. Imputation acts row by row through one function of the row, the statistics
  artifact and the column names: a missing optional value becomes the artifact's median
  and nothing else changes. Hence the same row gets the same filled values every time,
  and two batches with the same columns that share the artifact are filled through the
  same function, whatever values each batch holds.
\<close>

theorem imputation_frozen:
  assumes "set (columns batch1) = set (columns batch2)"
  shows "\<exists>fill keep.
           fill = fill_row (medians_pretransform st) (filter (has_column batch1) optional) \<and>
           keep = has_required batch1 required \<and>
           rows (fst (impute_missing_values batch1 required optional st)) =
             map fill (filter keep (rows batch1)) \<and>
           rows (fst (impute_missing_values batch2 required optional st)) =
             map fill (filter keep (rows batch2))"
proof -
  from assms have hc: "has_column batch2 = has_column batch1"
    by (simp add: has_column_def fun_eq_iff)
  have hr: "has_required batch2 required = has_required batch1 required"
    unfolding has_required_def hc ..
  show ?thesis
    using impute_rows [of batch1 required optional st] impute_rows [of batch2 required optional st]
    by (simp add: hc hr)
qed

text \<open>
  Two batches with different temperatures, each with one missing temperature: both are
  filled with the median 1000 of the artifact.
\<close>

theorem imputation_frozen_witness:
  "column (fst (impute_missing_values cool_batch required_features optional_features
             (reference_stats teq_median))) ''koi_teq'' = [Some 200, Some 1000] \<and>
   column (fst (impute_missing_values hot_batch required_features optional_features
             (reference_stats teq_median))) ''koi_teq'' = [Some 2900, Some 1000]"
proof -
  have cols: "set (columns cool_batch) = set (columns hot_batch)"
    by (simp add: cool_batch_def hot_batch_def)
  have opt: "filter (has_column cool_batch) optional_features = [''koi_teq'']"
    by (simp add: optional_features_def has_column_def cool_batch_def)
  have req: "filter (has_column cool_batch) required_features = [''koi_period'']"
    by (simp add: required_features_def has_column_def cool_batch_def)
  have keep: "filter (has_required cool_batch required_features) (rows cool_batch) = rows cool_batch"
    "filter (has_required cool_batch required_features) (rows hot_batch) = rows hot_batch"
  proof -
    have hr: "has_required cool_batch required_features = (\<lambda>r. cells r ''koi_period'' \<noteq> None)"
      by (simp add: fun_eq_iff has_required_def req)
    show "filter (has_required cool_batch required_features) (rows cool_batch) = rows cool_batch"
      "filter (has_required cool_batch required_features) (rows hot_batch) = rows hot_batch"
      unfolding hr by (simp_all add: cool_batch_def hot_batch_def mk_row_def)
  qed
  from imputation_frozen [OF cols, of "reference_stats teq_median" optional_features required_features]
  show ?thesis
    by (simp add: column_def reference_stats_def opt keep)
       (simp add: cool_batch_def hot_batch_def mk_row_def fill_row_def teq_median_def)
qed

section \<open>Properties of the magnitude transformer\<close>

lemma log_step_idx: "map idx (rows (log_step feat df)) = map idx (rows df)"
  by (simp add: log_step_def Let_def rename_column_def drop_column_def assign_log10_def
      assign_nan_def set_cell_def o_def)

lemma log_step_kepoi: "map kepoi (rows (log_step feat df)) = map kepoi (rows df)"
  by (simp add: log_step_def Let_def rename_column_def drop_column_def assign_log10_def
      assign_nan_def set_cell_def o_def)

lemma any_positive_column:
  "(filter (positive feat) (rows df) = []) = (\<not> list_ex cell_positive (column df feat))"
  by (auto simp: column_def list_ex_iff positive_def cell_positive_def filter_empty_conv)

lemma log_step_other:
  assumes "c \<noteq> feat" and "c \<noteq> ''log_'' @ feat"
  shows "column (log_step feat df) c = column df c"
    and "has_column (log_step feat df) c = has_column df c"
  using assms
  by (auto simp: log_step_def Let_def rename_column_def drop_column_def assign_log10_def
      assign_nan_def set_cell_def o_def column_def has_column_def)

lemma log_step_self:
  assumes "has_column df feat"
  shows "column (log_step feat df) feat =
           (if list_ex cell_positive (column df feat) then map log_cell (column df feat)
            else column df feat)"
    and "has_column (log_step feat df) feat"
proof -
  show "has_column (log_step feat df) feat"
    using assms
    by (auto simp: log_step_def Let_def rename_column_def drop_column_def assign_log10_def
        assign_nan_def has_column_def)
  show "column (log_step feat df) feat =
           (if list_ex cell_positive (column df feat) then map log_cell (column df feat)
            else column df feat)"
  proof (cases "list_ex cell_positive (column df feat)")
    case True
    then have "filter (positive feat) (rows df) \<noteq> []" by (simp add: any_positive_column)
    with True assms show ?thesis
      by (auto simp: log_step_def Let_def rename_column_def drop_column_def assign_log10_def
          assign_nan_def set_cell_def column_def positive_def log_cell_def split: option.splits)
  next
    case False
    then have "filter (positive feat) (rows df) = []" by (simp add: any_positive_column)
    with False show ?thesis by (simp add: log_step_def)
  qed
qed

lemma fold_log_step_other:
  assumes "c \<notin> set feats" and "no_clash feats c"
  shows "column (fold log_step feats df) c = column df c \<and>
         has_column (fold log_step feats df) c = has_column df c"
  using assms
proof (induction feats arbitrary: df)
  case Nil
  then show ?case by simp
next
  case (Cons g feats)
  then have "c \<noteq> g" "c \<noteq> ''log_'' @ g" "c \<notin> set feats" "no_clash feats c"
    by (simp_all add: no_clash_def)
  then show ?case
    using Cons.IH [of "log_step g df"] by (simp add: log_step_other)
qed

lemma fold_log_step_idx: "map idx (rows (fold log_step feats df)) = map idx (rows df)"
  by (induction feats arbitrary: df) (simp_all add: log_step_idx)

lemma fold_log_step_self:
  assumes "feat \<in> set feats" and "distinct feats" and "no_clash feats feat"
    and "has_column df feat"
  shows "column (fold log_step feats df) feat =
           (if list_ex cell_positive (column df feat) then map log_cell (column df feat)
            else column df feat) \<and>
         has_column (fold log_step feats df) feat"
  using assms
proof (induction feats arbitrary: df)
  case Nil
  then show ?case by simp
next
  case (Cons g feats)
  have nc: "no_clash feats feat" using Cons.prems(3) by (simp add: no_clash_def)
  show ?case
  proof (cases "g = feat")
    case True
    then have "feat \<notin> set feats" using Cons.prems(2) by simp
    from fold_log_step_other [OF this nc, of "log_step feat df"] True
    show ?thesis by (simp add: log_step_self [OF Cons.prems(4)])
  next
    case False
    moreover have "feat \<noteq> ''log_'' @ g" using Cons.prems(3) by (simp add: no_clash_def)
    ultimately have same: "column (log_step g df) feat = column df feat"
      "has_column (log_step g df) feat" using Cons.prems(4) by (simp_all add: log_step_other)
    from False Cons.prems have "feat \<in> set feats" "distinct feats" by simp_all
    from Cons.IH [OF this nc same(2)] show ?thesis by (simp add: same(1))
  qed
qed

text \<open>
  Claim C6, as amended. For a feature of the log-transform list that is a column of the
  table and has at least one strictly positive entry, the stage replaces each strictly
  positive entry by its base-10 logarithm under the same column name and makes every
  other entry missing. A feature without a strictly positive entry is left as it is. No
  row is dropped. The list must name each feature once and no feature of the form
  \<open>log_g\<close> for a listed \<open>g\<close>, as the default list does.
\<close>

theorem log_transform_column:
  assumes "feat \<in> set (log_transform_features st)"
    and "distinct (log_transform_features st)"
    and "no_clash (log_transform_features st) feat"
    and "has_column df feat"
  shows "has_column (apply_log_transforms df st) feat \<and>
         map idx (rows (apply_log_transforms df st)) = map idx (rows df) \<and>
         column (apply_log_transforms df st) feat =
           (if list_ex cell_positive (column df feat) then map log_cell (column df feat)
            else column df feat)"
  using fold_log_step_self [OF assms] by (simp add: apply_log_transforms_def fold_log_step_idx)

lemma default_log_features_ok:
  "distinct default_log_features"
  "feat \<in> set default_log_features \<Longrightarrow> no_clash default_log_features feat"
  by (auto simp: default_log_features_def no_clash_def)

text \<open>
  One column with the entries 10, 0, -5 and a missing one: the logarithm of the first,
  the others missing, and the four rows still there.
\<close>

theorem log_transform_column_witness:
  "column (apply_log_transforms mixed_table (reference_stats no_medians)) ''koi_insol'' =
     [Some 1, None, None, None] \<and>
   map idx (rows (apply_log_transforms mixed_table (reference_stats no_medians))) = [0, 1, 2, 3]"
proof -
  have feat: "''koi_insol'' \<in> set (log_transform_features (reference_stats no_medians))"
    by (simp add: reference_stats_def default_log_features_def)
  have dist: "distinct (log_transform_features (reference_stats no_medians))"
    by (simp add: reference_stats_def default_log_features_ok)
  have clash: "no_clash (log_transform_features (reference_stats no_medians)) ''koi_insol''"
    by (simp add: reference_stats_def default_log_features_def no_clash_def)
  have col: "has_column mixed_table ''koi_insol''"
    by (simp add: has_column_def mixed_table_def)
  have vals: "column mixed_table ''koi_insol'' = [Some 10, Some 0, Some (- 5), None]"
    by (simp add: column_def mixed_table_def mk_row_def)
  have ids: "map idx (rows mixed_table) = [0, 1, 2, 3]"
    by (simp add: mixed_table_def mk_row_def)
  from log_transform_column [OF feat dist clash col] show ?thesis
    by (simp add: vals ids cell_positive_def log_cell_def)
qed

text \<open>
  Claim C6 as stated fails: in a frame whose only \<open>koi_insol\<close> entry is 0, the column has
  no strictly positive entry, the loop pass is skipped, and the entry stays 0 instead of
  becoming missing.
\<close>

theorem nonpositive_column_unchanged:
  "''koi_insol'' \<in> set (log_transform_features (reference_stats no_medians)) \<and>
   column dark_table ''koi_insol'' = [Some 0] \<and>
   column (apply_log_transforms dark_table (reference_stats no_medians)) ''koi_insol'' = [Some 0]"
  by (simp add: apply_log_transforms_def reference_stats_def default_log_features_def
      log_step_def has_column_def dark_table_def column_def mk_row_def positive_def)

section \<open>Properties of the stages of the raw branch\<close>

lemma read_csv_idx: "map idx (rows (read_csv cols lines)) = [0..<length lines]"
proof -
  have "map idx (map (\<lambda>(i, l). \<lparr>idx = i, kepoi = fst l, cells = snd l\<rparr>) (enumerate n ls)) =
          [n..<n + length ls]" for n and ls :: "csv_line list"
    by (simp add: enumerate_eq_zip o_def split_def)
  from this [of 0 lines] show ?thesis by (simp add: read_csv_def)
qed

lemma read_csv_length: "length (rows (read_csv cols lines)) = length lines"
  using read_csv_idx [of cols lines] by (metis length_map length_upt minus_nat.diff_0)

lemma read_csv_nth:
  assumes "r \<in> set (rows (read_csv cols lines))"
  shows "idx r < length lines \<and> cells r = snd (lines ! idx r) \<and> kepoi r = fst (lines ! idx r)"
proof -
  from assms obtain i l where "(i, l) \<in> set (enumerate 0 lines)"
    and r: "r = \<lparr>idx = i, kepoi = fst l, cells = snd l\<rparr>"
    by (auto simp: read_csv_def)
  then have "i < length lines" "l = lines ! i"
    by (auto simp: in_set_enumerate_eq)
  with r show ?thesis by simp
qed

lemma leakage_step_rows:
  "map idx (rows (leakage_step g df)) = map idx (rows df)"
  "map kepoi (rows (leakage_step g df)) = map kepoi (rows df)"
  "length (rows (leakage_step g df)) = length (rows df)"
  by (simp_all add: leakage_step_def drop_column_def set_cell_def o_def)

lemma leakage_step_column:
  "c \<noteq> g \<Longrightarrow> column (leakage_step g df) c = column df c"
  "c \<noteq> g \<Longrightarrow> has_column (leakage_step g df) c = has_column df c"
  by (simp_all add: leakage_step_def drop_column_def set_cell_def o_def column_def has_column_def)

lemma remove_leakage_rows:
  "map idx (rows (remove_leakage_features df)) = map idx (rows df)"
  "map kepoi (rows (remove_leakage_features df)) = map kepoi (rows df)"
  "length (rows (remove_leakage_features df)) = length (rows df)"
  by (simp_all add: remove_leakage_features_def leakage_features_def leakage_step_rows)

lemma remove_leakage_column:
  assumes "c \<notin> set leakage_features"
  shows "column (remove_leakage_features df) c = column df c"
    and "has_column (remove_leakage_features df) c = has_column df c"
  using assms
  by (simp_all add: remove_leakage_features_def leakage_features_def leakage_step_column)

lemma remove_duplicates_rows: "subseq (rows (remove_duplicates df)) (rows df)"
  by (simp add: remove_duplicates_def drop_duplicates_def keep_first_subseq)

lemma remove_duplicates_columns: "columns (remove_duplicates df) = columns df"
  by (simp add: remove_duplicates_def drop_duplicates_def)

lemma select_features_idx: "map idx (rows (select_features df)) = map idx (rows df)"
  by (simp add: select_features_def Let_def o_def)

text \<open>The suppressor: the loop state after each pass, and the result.\<close>

lemma outlier_step_map:
  "outlier_step df feat (map K (rows df), errs) =
     (map (\<lambda>r. K r \<and> \<not> outlier_fails df feat r) (rows df),
      errs @ map (row_error (ExtremeOutlier feat)) (filter (outlier_fails df feat) (rows df)))"
proof -
  have none: "filter P xs = []" "map (\<lambda>r. K r \<and> \<not> P r) xs = map K xs"
    if "\<not> list_ex P xs" for P and xs :: "row list"
    using that by (induction xs) auto
  have fails: "outlier_fails df feat = outlier_invalid df feat"
    if "has_column df feat" "dropna_values df feat \<noteq> []"
    using that by (simp add: outlier_fails_def fun_eq_iff)
  have never: "outlier_fails df feat = (\<lambda>r. False)"
    if "\<not> has_column df feat \<or> dropna_values df feat = []"
    using that by (auto simp: outlier_fails_def fun_eq_iff)
  show ?thesis
  proof (cases "has_column df feat \<and> dropna_values df feat \<noteq> []")
    case True
    then show ?thesis
      by (simp add: outlier_step_def fails apply_check_map none)
  next
    case False
    then show ?thesis by (auto simp: outlier_step_def never)
  qed
qed

lemma fold_outlier_step:
  "fold (outlier_step df) feats (map K (rows df), errs) =
     (map (\<lambda>r. K r \<and> \<not> outlier_rejected df feats r) (rows df), errs @ outlier_errors df feats)"
proof (induction feats arbitrary: K errs)
  case Nil
  then show ?case by (simp add: outlier_rejected_def outlier_errors_def)
next
  case (Cons f feats)
  show ?case
    by (simp add: outlier_step_map Cons.IH)
       (simp add: outlier_rejected_def outlier_errors_def conj_assoc)
qed

lemma remove_extreme_outliers_result:
  "remove_extreme_outliers df feats =
     (df\<lparr>rows := filter (\<lambda>r. \<not> outlier_rejected df feats r) (rows df)\<rparr>, outlier_errors df feats)"
proof -
  have init: "replicate (length (rows df)) True = map (\<lambda>r. True) (rows df)"
    by (simp add: map_replicate_const)
  show ?thesis
    by (simp add: remove_extreme_outliers_def init fold_outlier_step select_mask_map)
qed

section \<open>The raw branch as a whole\<close>

lemma fold_required_step:
  "fold (required_step df) feats errs =
     errs @ concat (map (\<lambda>feat. if has_column df feat
                              then map (row_error (RequiredMissing feat))
                                     (filter (\<lambda>r. cells r feat = None) (rows df))
                              else []) feats)"
  by (induction feats arbitrary: errs) (simp_all add: required_step_def)

lemma impute_errors:
  "snd (impute_missing_values df required optional st) = fold (required_step df) required []"
  by (simp add: impute_missing_values_def Let_def)

lemma impute_error_rows:
  assumes "e \<in> set (snd (impute_missing_values df required optional st))"
  shows "\<exists>r \<in> set (rows df). \<exists>feat \<in> set required.
           e = row_error (RequiredMissing feat) r \<and> has_column df feat \<and> cells r feat = None"
  using assms by (auto simp: impute_errors fold_required_step split: if_splits)

lemma impute_dropped_has_error:
  assumes "r \<in> set (rows df)" and "\<not> has_required df required r"
  shows "\<exists>e \<in> set (snd (impute_missing_values df required optional st)). err_row e = int (idx r)"
proof -
  from assms(2) obtain feat where f: "feat \<in> set required" "has_column df feat" "cells r feat = None"
    by (auto simp: has_required_def list_all_iff)
  with assms(1) have "row_error (RequiredMissing feat) r
      \<in> set (snd (impute_missing_values df required optional st))"
    by (auto simp: impute_errors fold_required_step intro!: bexI [of _ feat])
  then show ?thesis by (auto simp: row_error_def intro!: bexI [of _ "row_error (RequiredMissing feat) r"])
qed

lemma impute_idx:
  "map idx (rows (fst (impute_missing_values df required optional st))) =
     map idx (filter (has_required df required) (rows df))"
  by (simp add: impute_rows fill_row_def o_def)

lemma validate_error_rows:
  assumes "validate_physical_ranges df st = Inr (df', errs)" and "e \<in> set errs"
  shows "\<exists>r \<in> set (rows df). err_row e = int (idx r) \<and> row_rejected df st r"
proof -
  have ce: "\<exists>r \<in> set (rows df). err_row e = int (idx r) \<and> range_fails df st feat test r"
    if "e \<in> set (check_errors df st feat test)" for feat test
  proof (cases "valid_ranges st feat")
    case None
    have "check_errors df st feat test = []"
      unfolding check_errors_def None by simp
    with that have False by simp
    then show ?thesis ..
  next
    case (Some rg)
    obtain lo hi where "rg = (lo, hi)" by (cases rg)
    with Some that show ?thesis
      by (cases "has_column df feat")
         (auto simp: check_errors_def range_fails_def row_error_def)
  qed
  from validate_result(2) [OF assms(1)] assms(2)
  consider "e \<in> set (range_errors df st)" | "e \<in> set (cross_errors df)" by auto
  then show ?thesis
  proof cases
    case 1
    then show ?thesis
      by (auto simp: range_errors_def row_rejected_def range_rejected_def dest!: ce)
  next
    case 2
    then show ?thesis
      by (auto simp: cross_errors_def row_rejected_def cross_rejected_def row_error_def
          split: if_splits)
  qed
qed

lemma validate_rejected_has_error:
  assumes "validate_physical_ranges df st = Inr (df', errs)"
    and "r \<in> set (rows df)" and "row_rejected df st r"
  shows "\<exists>e \<in> set errs. err_row e = int (idx r)"
proof -
  have ce: "\<exists>e \<in> set (check_errors df st feat test). err_row e = int (idx r)"
    if "range_fails df st feat test r" for feat test
    using that assms(2)
    by (auto simp: check_errors_def range_fails_def row_error_def split: option.splits)
  have errs: "set errs = set (range_errors df st) \<union> set (cross_errors df)"
    using validate_result(2) [OF assms(1)] by simp
  from assms(3) consider "range_rejected df st r" | "cross_rejected df r"
    by (auto simp: row_rejected_def)
  then show ?thesis
  proof cases
    case 1
    then show ?thesis unfolding errs range_rejected_def range_errors_def
      by (auto dest!: ce)
  next
    case 2
    with assms(2) have "row_error PlanetLargerThanStar r \<in> set (cross_errors df)"
      by (auto simp: cross_errors_def cross_rejected_def)
    then show ?thesis unfolding errs
      by (auto simp: row_error_def intro!: bexI [of _ "row_error PlanetLargerThanStar r"])
  qed
qed

lemma outlier_error_rows:
  assumes "e \<in> set (outlier_errors df feats)"
  shows "\<exists>r \<in> set (rows df). err_row e = int (idx r) \<and> outlier_rejected df feats r"
  using assms
  by (auto simp: outlier_errors_def outlier_rejected_def list_ex_iff row_error_def)

lemma outlier_rejected_has_error:
  assumes "r \<in> set (rows df)" and "outlier_rejected df feats r"
  shows "\<exists>e \<in> set (outlier_errors df feats). err_row e = int (idx r)"
proof -
  from assms(2) obtain feat where "feat \<in> set feats" "outlier_fails df feat r"
    by (auto simp: outlier_rejected_def list_ex_iff)
  with assms(1) have "row_error (ExtremeOutlier feat) r \<in> set (outlier_errors df feats)"
    by (auto simp: outlier_errors_def)
  then show ?thesis
    by (auto simp: row_error_def intro!: bexI [of _ "row_error (ExtremeOutlier feat) r"])
qed

section \<open>Properties of the orchestrator\<close>

lemma required_columns_present:
  "fst (validate_required_features df required) = (\<forall>feat \<in> set required. has_column df feat)"
  by (auto simp: validate_required_features_def Let_def filter_empty_conv)

lemma raw_path_success:
  assumes "success (raw_path df st res)" and "\<not> success res"
  obtains df3 e1 df4 e2 df6 e3 where
    "fst (validate_required_features df required_features)"
    "validate_physical_ranges (remove_duplicates (remove_leakage_features df)) st = Inr (df3, e1)"
    "impute_missing_values df3 required_features optional_features st = (df4, e2)"
    "remove_extreme_outliers (apply_log_transforms df4 st) all_features = (df6, e3)"
    "errors (raw_path df st res) = errors res @ e1 @ e2 @ e3"
    "written (raw_path df st res) = Some (select_features df6)"
    "processed_rows (raw_path df st res) = int (length (rows df6))"
    "removed_rows (raw_path df st res) = original_rows res - int (length (rows df6))"
    "original_rows (raw_path df st res) = original_rows res"
proof -
  have len: "length (rows (select_features d)) = length (rows d)" for d
    by (simp add: select_features_def Let_def)
  show ?thesis
  proof (cases "fst (validate_required_features df required_features)")
    case False
    with assms have False
      by (simp add: raw_path_def split_def)
    then show ?thesis ..
  next
    case True
    show ?thesis
    proof (cases "validate_physical_ranges (remove_duplicates (remove_leakage_features df)) st")
      case (Inl e)
      with True assms have False
        by (simp add: raw_path_def split_def Let_def)
      then show ?thesis ..
    next
      case (Inr p)
      obtain df3 e1 where p: "p = (df3, e1)" by (cases p)
      obtain df4 e2 where i: "impute_missing_values df3 required_features optional_features st = (df4, e2)"
        by (cases "impute_missing_values df3 required_features optional_features st")
      obtain df6 e3 where
        out: "remove_extreme_outliers (apply_log_transforms df4 st) all_features = (df6, e3)"
        by (cases "remove_extreme_outliers (apply_log_transforms df4 st) all_features")
      show ?thesis
        by (rule that [OF True Inr [unfolded p] i out])
           (simp_all add: raw_path_def split_def Let_def True Inr p i out len)
    qed
  qed
qed

lemma raw_path_failure:
  assumes "\<not> success (raw_path df st res)"
  shows "written (raw_path df st res) = written res"
  using assms
  by (auto simp: raw_path_def split_def Let_def split: sum.splits)

lemma short_circuit_success:
  assumes "success (short_circuit df res)" and "\<not> success res"
  shows "written (short_circuit df res) = Some (select_features df)"
    and "processed_rows (short_circuit df res) = int (length (rows df))"
    and "removed_rows (short_circuit df res) = 0"
    and "original_rows (short_circuit df res) = original_rows res"
    and "errors (short_circuit df res) = errors res"
    and "fst (validate_required_features df required_features)"
  using assms
  by (auto simp: short_circuit_def split_def Let_def select_features_def split: if_splits)

lemma short_circuit_failure:
  assumes "\<not> success (short_circuit df res)"
  shows "written (short_circuit df res) = written res"
  using assms
  by (auto simp: short_circuit_def split_def Let_def split: if_splits)

text \<open>The run as a whole: which branch produced a successful result.\<close>

lemma preprocess_success_cases:
  assumes "success (preprocess_csv cols lines st)"
  obtains (transformed) "lines \<noteq> []" "is_already_preprocessed (read_csv cols lines)"
      "preprocess_csv cols lines st =
         short_circuit (read_csv cols lines) (initial_result\<lparr>original_rows := int (length lines)\<rparr>)"
  | (raw) "lines \<noteq> []" "\<not> is_already_preprocessed (read_csv cols lines)"
      "preprocess_csv cols lines st =
         raw_path (read_csv cols lines) st (initial_result\<lparr>original_rows := int (length lines)\<rparr>)"
proof -
  have empty: "(rows (read_csv cols lines) = []) = (lines = [])"
    using read_csv_length [of cols lines] by (metis length_0_conv)
  have len: "length (rows (read_csv cols lines)) = length lines"
    by (rule read_csv_length)
  from assms have "lines \<noteq> []"
    by (auto simp: preprocess_csv_def Let_def empty initial_result_def table_error_def split: if_splits)
  then show ?thesis
    using assms that
    by (cases "is_already_preprocessed (read_csv cols lines)")
       (simp_all add: preprocess_csv_def Let_def empty len)
qed

lemma initial_result_simps:
  "\<not> success (initial_result\<lparr>original_rows := n\<rparr>)"
  "errors (initial_result\<lparr>original_rows := n\<rparr>) = []"
  "original_rows (initial_result\<lparr>original_rows := n\<rparr>) = n"
  "written (initial_result\<lparr>original_rows := n\<rparr>) = None"
  by (simp_all add: initial_result_def)

lemma idx_image_cong:
  "map idx xs = map idx ys \<Longrightarrow> idx ` set xs = idx ` set ys"
  by (metis set_map)

text \<open>
  Claim C3, as amended. For every run that returns \<open>success = true\<close>,
  \<open>processed_rows + removed_rows = original_rows\<close>, and every input row that does not
  appear in the output table was either removed by duplicate resolution or has at least
  one entry with its index in the errors list.
\<close>

theorem row_conservation:
  assumes run: "res = preprocess_csv cols lines st" and ok: "success res"
  shows "processed_rows res + removed_rows res = original_rows res \<and>
         original_rows res = int (length lines) \<and>
         processed_rows res = int (length (output_indices res)) \<and>
         (\<forall>i < length lines. i \<notin> set (output_indices res) \<longrightarrow>
            i \<notin> idx ` set (rows (deduplicated cols lines)) \<or>
            (\<exists>e \<in> set (errors res). err_row e = int i))"
proof -
  let ?df = "read_csv cols lines"
  let ?r0 = "initial_result\<lparr>original_rows := int (length lines)\<rparr>"
  from ok [unfolded run] show ?thesis
  proof (cases rule: preprocess_success_cases)
    case transformed
    have s: "success (short_circuit ?df ?r0)" using ok run transformed(3) by simp
    note f = short_circuit_success [OF s initial_result_simps(1)]
    have "output_indices res = [0..<length lines]"
      by (simp add: output_indices_def run transformed(3) f(1) select_features_idx read_csv_idx)
    then show ?thesis
      by (simp add: run transformed(3) f initial_result_simps read_csv_length)
  next
    case raw
    have s: "success (raw_path ?df st ?r0)" using ok run raw(3) by simp
    from s initial_result_simps(1) obtain df3 e1 df4 e2 df6 e3 where
      v: "validate_physical_ranges (deduplicated cols lines) st = Inr (df3, e1)" and
      i: "impute_missing_values df3 required_features optional_features st = (df4, e2)" and
      o: "remove_extreme_outliers (apply_log_transforms df4 st) all_features = (df6, e3)" and
      e: "errors res = e1 @ e2 @ e3" and
      w: "written res = Some (select_features df6)" and
      p: "processed_rows res = int (length (rows df6))" and
      r: "removed_rows res = int (length lines) - int (length (rows df6))" and
      n: "original_rows res = int (length lines)"
      unfolding run raw(3) deduplicated_def
      by (rule raw_path_success) (simp_all add: initial_result_simps)
    let ?d2 = "deduplicated cols lines"
    let ?d5 = "apply_log_transforms df4 st"
    have out: "output_indices res = map idx (rows df6)"
      by (simp add: output_indices_def w select_features_idx)
    have d3: "rows df3 = filter (\<lambda>r. \<not> row_rejected ?d2 st r) (rows ?d2)"
      using validate_result(1) [OF v] by simp
    have d4: "map idx (rows df4) = map idx (filter (has_required df3 required_features) (rows df3))"
      using impute_idx [of df3 required_features optional_features st] by (simp add: i)
    have d5: "idx ` set (rows ?d5) = idx ` set (rows df4)"
      by (rule idx_image_cong) (simp add: apply_log_transforms_def fold_log_step_idx)
    have d6: "rows df6 = filter (\<lambda>r. \<not> outlier_rejected ?d5 all_features r) (rows ?d5)"
      and e3: "e3 = outlier_errors ?d5 all_features"
      using o by (auto simp: remove_extreme_outliers_result)
    have e2: "e2 = snd (impute_missing_values df3 required_features optional_features st)"
      by (simp add: i)
    have rowwise: "i \<notin> idx ` set (rows ?d2) \<or> (\<exists>e \<in> set (errors res). err_row e = int i)"
      if "i \<notin> set (output_indices res)" for i
    proof (cases "i \<in> idx ` set (rows ?d2)")
      case False
      then show ?thesis by simp
    next
      case True
      then obtain r2 where r2: "r2 \<in> set (rows ?d2)" "idx r2 = i" by auto
      show ?thesis
      proof (cases "row_rejected ?d2 st r2")
        case True
        from validate_rejected_has_error [OF v r2(1) True] r2(2) show ?thesis
          by (auto simp: e)
      next
        case False
        with r2 have r3: "r2 \<in> set (rows df3)" by (simp add: d3)
        show ?thesis
        proof (cases "has_required df3 required_features r2")
          case False
          from impute_dropped_has_error [OF r3 False, of optional_features st] r2(2) show ?thesis
            by (auto simp: e e2)
        next
          case True
          with r3 have "i \<in> idx ` set (filter (has_required df3 required_features) (rows df3))"
            using r2(2) by force
          then have "i \<in> idx ` set (rows df4)"
            using idx_image_cong [OF d4] by simp
          then obtain r5 where r5: "r5 \<in> set (rows ?d5)" "idx r5 = i"
            unfolding d5 [symmetric] by auto
          have "outlier_rejected ?d5 all_features r5"
          proof (rule ccontr)
            assume "\<not> outlier_rejected ?d5 all_features r5"
            with r5 have "i \<in> idx ` set (rows df6)" by (force simp: d6)
            with that show False by (simp add: out)
          qed
          from outlier_rejected_has_error [OF r5(1) this] r5(2) show ?thesis
            by (auto simp: e e3)
        qed
      qed
    qed
    show ?thesis
      using rowwise by (simp add: p r n out)
  qed
qed

text \<open>
  The rows that leave duplicate resolution are input lines: same index, same cells apart
  from the leakage columns.
\<close>

lemma leakage_step_descent:
  assumes "r \<in> set (rows (leakage_step g df))"
  shows "\<exists>r0 \<in> set (rows df). idx r = idx r0 \<and> (\<forall>c. c \<noteq> g \<longrightarrow> cells r c = cells r0 c)"
  using assms
  by (auto simp: leakage_step_def drop_column_def set_cell_def split: if_splits)

lemma remove_leakage_descent:
  assumes "r \<in> set (rows (remove_leakage_features df))"
  shows "\<exists>r0 \<in> set (rows df). idx r = idx r0 \<and>
           (\<forall>c. c \<notin> set leakage_features \<longrightarrow> cells r c = cells r0 c)"
proof -
  let ?d1 = "leakage_step ''koi_score'' df"
  from assms have "r \<in> set (rows (leakage_step ''koi_pdisposition'' ?d1))"
    by (simp add: remove_leakage_features_def leakage_features_def)
  from leakage_step_descent [OF this] obtain r1 where
    r1: "r1 \<in> set (rows ?d1)" "idx r = idx r1" "\<forall>c. c \<noteq> ''koi_pdisposition'' \<longrightarrow> cells r c = cells r1 c"
    by blast
  from leakage_step_descent [OF r1(1)] obtain r0 where
    r0: "r0 \<in> set (rows df)" "idx r1 = idx r0" "\<forall>c. c \<noteq> ''koi_score'' \<longrightarrow> cells r1 c = cells r0 c"
    by blast
  from r1 r0 show ?thesis
    by (intro bexI [of _ r0]) (simp_all add: leakage_features_def)
qed

lemma deduplicated_descent:
  assumes "r \<in> set (rows (deduplicated cols lines))"
  shows "idx r < length lines"
    and "c \<notin> set leakage_features \<Longrightarrow> cells r c = snd (lines ! idx r) c"
proof -
  from assms have "r \<in> set (rows (remove_leakage_features (read_csv cols lines)))"
    unfolding deduplicated_def
    using remove_duplicates_rows [of "remove_leakage_features (read_csv cols lines)"]
    by (auto dest: list_emb_set)
  from remove_leakage_descent [OF this] obtain r0 where
    r0: "r0 \<in> set (rows (read_csv cols lines))" "idx r = idx r0"
      "\<forall>c. c \<notin> set leakage_features \<longrightarrow> cells r c = cells r0 c"
    by blast
  from read_csv_nth [OF r0(1)] r0(2,3)
  show "idx r < length lines"
    and "c \<notin> set leakage_features \<Longrightarrow> cells r c = snd (lines ! idx r) c"
    by simp_all
qed

lemma deduplicated_columns:
  "c \<notin> set leakage_features \<Longrightarrow> has_column (deduplicated cols lines) c = (c \<in> set cols)"
  by (simp add: deduplicated_def has_column_def remove_duplicates_columns
      remove_leakage_column(2) [unfolded has_column_def] read_csv_def)

lemma failed_run_writes_nothing:
  assumes "\<not> success (preprocess_csv cols lines st)"
  shows "written (preprocess_csv cols lines st) = None"
proof -
  let ?r0 = "initial_result\<lparr>original_rows := int (length (rows (read_csv cols lines)))\<rparr>"
  have w0: "written ?r0 = None" by (simp add: initial_result_def)
  show ?thesis
  proof (cases "length (rows (read_csv cols lines)) = 0")
    case True
    then show ?thesis by (simp add: preprocess_csv_def Let_def initial_result_def)
  next
    case False
    show ?thesis
    proof (cases "is_already_preprocessed (read_csv cols lines)")
      case True
      with False assms have "\<not> success (short_circuit (read_csv cols lines) ?r0)"
        by (simp add: preprocess_csv_def Let_def)
      from short_circuit_failure [OF this] True False show ?thesis
        by (simp add: preprocess_csv_def Let_def w0)
    next
      case raw: False
      with False assms have "\<not> success (raw_path (read_csv cols lines) st ?r0)"
        by (simp add: preprocess_csv_def Let_def)
      from raw_path_failure [OF this] raw False show ?thesis
        by (simp add: preprocess_csv_def Let_def w0)
    qed
  qed
qed

lemma required_not_leakage: "feat \<in> set required_features \<Longrightarrow> feat \<notin> set leakage_features"
  by (auto simp: required_features_def leakage_features_def)

text \<open>
  Claim C2, as amended. When the detector takes the raw branch, a row in which any
  required feature (\<open>koi_period\<close>, \<open>koi_depth\<close>, \<open>koi_duration\<close>, \<open>koi_prad\<close>) is missing
  never appears in the output table, whatever its optional features hold.
\<close>

theorem required_strict_raw:
  assumes raw: "\<not> is_already_preprocessed (read_csv cols lines)"
    and i: "i < length lines"
    and feat: "feat \<in> set required_features"
    and missing: "snd (lines ! i) feat = None"
  shows "i \<notin> set (output_indices (preprocess_csv cols lines st))"
proof (cases "success (preprocess_csv cols lines st)")
  case False
  from failed_run_writes_nothing [OF this] show ?thesis
    by (simp add: output_indices_def)
next
  case True
  let ?res = "preprocess_csv cols lines st"
  let ?r0 = "initial_result\<lparr>original_rows := int (length lines)\<rparr>"
  from True have run: "?res = raw_path (read_csv cols lines) st ?r0"
    by (cases rule: preprocess_success_cases) (simp_all add: raw)
  with True have "success (raw_path (read_csv cols lines) st ?r0)" by simp
  from this initial_result_simps(1) obtain df3 e1 df4 e2 df6 e3 where
    req: "fst (validate_required_features (read_csv cols lines) required_features)" and
    v: "validate_physical_ranges (deduplicated cols lines) st = Inr (df3, e1)" and
    imp: "impute_missing_values df3 required_features optional_features st = (df4, e2)" and
    o: "remove_extreme_outliers (apply_log_transforms df4 st) all_features = (df6, e3)" and
    w: "written ?res = Some (select_features df6)"
    unfolding run deduplicated_def
    by (rule raw_path_success)
  let ?d2 = "deduplicated cols lines"
  let ?d5 = "apply_log_transforms df4 st"
  have d3: "df3 = ?d2\<lparr>rows := filter (\<lambda>r. \<not> row_rejected ?d2 st r) (rows ?d2)\<rparr>"
    using validate_result(1) [OF v] .
  have d4: "map idx (rows df4) = map idx (filter (has_required df3 required_features) (rows df3))"
    using impute_idx [of df3 required_features optional_features st] by (simp add: imp)
  have d5: "idx ` set (rows ?d5) = idx ` set (rows df4)"
    by (rule idx_image_cong) (simp add: apply_log_transforms_def fold_log_step_idx)
  have d6: "set (rows df6) \<subseteq> set (rows ?d5)"
    using o by (auto simp: remove_extreme_outliers_result)
  have col: "has_column df3 feat"
  proof -
    from req feat have "has_column (read_csv cols lines) feat"
      by (simp add: required_columns_present)
    then have "feat \<in> set cols" by (simp add: has_column_def read_csv_def)
    then have "has_column ?d2 feat"
      by (simp add: deduplicated_columns required_not_leakage [OF feat])
    then show ?thesis by (simp add: d3 has_column_def)
  qed
  show ?thesis
  proof
    assume "i \<in> set (output_indices ?res)"
    then have "i \<in> idx ` set (rows df6)"
      by (simp add: output_indices_def w select_features_idx)
    with d6 have "i \<in> idx ` set (rows ?d5)" by auto
    then have "i \<in> idx ` set (filter (has_required df3 required_features) (rows df3))"
      unfolding d5 using idx_image_cong [OF d4] by simp
    then obtain r where r: "r \<in> set (rows df3)" "has_required df3 required_features r" "idx r = i"
      by auto
    from r(1) have "r \<in> set (rows ?d2)" by (simp add: d3)
    from deduplicated_descent(2) [OF this required_not_leakage [OF feat]] r(3) missing
    have "cells r feat = None" by simp
    with col feat have "\<not> has_required df3 required_features r"
      by (auto simp: has_required_def list_all_iff)
    with r(2) show False by contradiction
  qed
qed

lemma valid_cells_simps:
  "valid_cells ''koi_period'' = Some 10"
  "valid_cells ''koi_depth'' = Some 10"
  "valid_cells ''koi_duration'' = Some 1"
  "valid_cells ''koi_prad'' = Some 10"
  "valid_cells ''koi_insol'' = None"
  "valid_cells ''koi_srad'' = None"
  "valid_cells ''koi_model_snr'' = None"
  "valid_cells ''koi_teq'' = None"
  by (simp_all add: valid_cells_def)

lemma survey_frame:
  "read_csv survey_cols survey_lines =
     \<lparr>columns = survey_cols,
      rows = [\<lparr>idx = 0, kepoi = Some ''K1'', cells = valid_cells\<rparr>,
              \<lparr>idx = 1, kepoi = Some ''K1'', cells = valid_cells\<rparr>,
              \<lparr>idx = 2, kepoi = Some ''K2'', cells = valid_cells(''koi_period'' := Some (- 1))\<rparr>,
              \<lparr>idx = 3, kepoi = Some ''K3'', cells = valid_cells(''koi_duration'' := None)\<rparr>,
              \<lparr>idx = 4, kepoi = Some ''K4'', cells = valid_cells\<rparr>]\<rparr>"
  by (simp add: read_csv_def survey_lines_def enumerate_eq_zip upt_rec)

lemma survey_raw: "\<not> is_already_preprocessed (read_csv survey_cols survey_lines)"
  unfolding survey_frame
  by (simp add: is_already_preprocessed_def detector_log_features_def has_column_def survey_cols_def
      detect_step_def dropna_values_def List.map_filter_def valid_cells_simps votes_transformed_def)

text \<open>
  In the scenario, line 3 lacks the duration and the detector answers "raw": the line is
  not in the output.
\<close>

theorem required_strict_raw_witness:
  "3 \<notin> set (output_indices (preprocess_csv survey_cols survey_lines (reference_stats no_medians)))"
proof -
  have i: "3 < length survey_lines" by (simp add: survey_lines_def)
  have feat: "''koi_duration'' \<in> set required_features" by (simp add: required_features_def)
  have missing: "snd (survey_lines ! 3) ''koi_duration'' = None"
    by (simp add: survey_lines_def)
  from required_strict_raw [OF survey_raw i feat missing] show ?thesis .
qed

lemma logged_frame:
  "read_csv logged_cols logged_lines =
     \<lparr>columns = logged_cols, rows = [\<lparr>idx = 0, kepoi = None, cells = logged_cells\<rparr>]\<rparr>"
  by (simp add: read_csv_def logged_lines_def enumerate_eq_zip)

lemma logged_detected: "is_already_preprocessed (read_csv logged_cols logged_lines)"
  unfolding logged_frame
  by (simp add: is_already_preprocessed_def detector_log_features_def has_column_def logged_cols_def
      detect_step_def dropna_values_def List.map_filter_def logged_cells_def votes_transformed_def)

text \<open>
  Claim C2 as stated fails in the already-transformed branch: the only line of this table
  has no \<open>koi_duration\<close>, the detector answers "already transformed", and the line is
  written to the output as it is.
\<close>

theorem missing_required_kept_when_transformed:
  "snd (logged_lines ! 0) ''koi_duration'' = None \<and>
   is_already_preprocessed (read_csv logged_cols logged_lines) \<and>
   success (preprocess_csv logged_cols logged_lines (reference_stats no_medians)) \<and>
   output_indices (preprocess_csv logged_cols logged_lines (reference_stats no_medians)) = [0]"
proof -
  have run: "preprocess_csv logged_cols logged_lines (reference_stats no_medians) =
      short_circuit (read_csv logged_cols logged_lines)
        (initial_result\<lparr>original_rows := int (length (rows (read_csv logged_cols logged_lines)))\<rparr>)"
    using logged_detected by (simp add: preprocess_csv_def Let_def logged_frame)
  have req: "fst (validate_required_features (read_csv logged_cols logged_lines) required_features)"
    unfolding logged_frame
    by (simp add: required_columns_present required_features_def has_column_def logged_cols_def)
  then have ok: "success (preprocess_csv logged_cols logged_lines (reference_stats no_medians))"
    unfolding run by (simp add: short_circuit_def split_def Let_def)
  from short_circuit_success(1) [OF ok [unfolded run]]
  have "written (preprocess_csv logged_cols logged_lines (reference_stats no_medians)) =
      Some (select_features (read_csv logged_cols logged_lines))"
    unfolding run by (simp add: initial_result_def)
  then have "output_indices (preprocess_csv logged_cols logged_lines (reference_stats no_medians)) = [0]"
    by (simp add: output_indices_def select_features_idx read_csv_idx logged_lines_def)
  with ok logged_detected show ?thesis
    by (simp add: logged_lines_def logged_cells_def)
qed

section \<open>Diagnostics\<close>

lemma fault_at_cong:
  assumes "\<And>c. c \<notin> set leakage_features \<Longrightarrow> c1 c = c2 c" and "\<not> names_leakage msg"
  shows "fault_at c1 msg = fault_at c2 msg"
proof -
  have "c1 ''koi_prad'' = c2 ''koi_prad''" "c1 ''koi_srad'' = c2 ''koi_srad''"
    by (simp_all add: assms(1) leakage_features_def)
  with assms show ?thesis
    by (cases msg) (simp_all add: fault_at_def names_leakage_def cong: option.case_cong)
qed

lemma check_errors_fault:
  assumes "e \<in> set (check_errors df st feat test)"
    and "feat \<notin> set leakage_features"
    and "(feat = ''koi_period'' \<and> test = period_invalid) \<or>
         (feat \<noteq> ''koi_period'' \<and> test = range_invalid feat)"
  shows "\<exists>r \<in> set (rows df). err_row e = int (idx r) \<and>
           fault_at (cells r) (err_message e) \<and> \<not> names_leakage (err_message e)"
proof (cases "valid_ranges st feat")
  case None
  have "check_errors df st feat test = []"
    unfolding check_errors_def None by simp
  with assms(1) have False by simp
  then show ?thesis ..
next
  case (Some rg)
  obtain lo hi where rg: "rg = (lo, hi)" by (cases rg)
  from assms(1) obtain r where r: "r \<in> set (rows df)" "test lo hi r"
    "e = row_error (OutOfRange feat lo hi) r"
    by (cases "has_column df feat") (auto simp: check_errors_def Some rg)
  from assms(3) r(2) have "fault_at (cells r) (OutOfRange feat lo hi)"
    by (auto simp: fault_at_def period_invalid_def range_invalid_def split: option.splits)
  with r(1,3) assms(2) show ?thesis
    by (intro bexI [of _ r]) (simp_all add: row_error_def names_leakage_def)
qed

lemma validate_error_fault:
  assumes "validate_physical_ranges df st = Inr (df', errs)" and "e \<in> set errs"
  shows "\<exists>r \<in> set (rows df). err_row e = int (idx r) \<and>
           fault_at (cells r) (err_message e) \<and> \<not> names_leakage (err_message e)"
proof -
  from validate_result(2) [OF assms(1)] assms(2)
  consider "e \<in> set (check_errors df st ''koi_period'' period_invalid)"
    | "e \<in> set (check_errors df st ''koi_prad'' (range_invalid ''koi_prad''))"
    | "e \<in> set (check_errors df st ''koi_depth'' (range_invalid ''koi_depth''))"
    | "e \<in> set (check_errors df st ''koi_teq'' (range_invalid ''koi_teq''))"
    | "e \<in> set (cross_errors df)"
    by (auto simp: range_errors_def)
  then show ?thesis
  proof cases
    case 1
    then show ?thesis by (rule check_errors_fault) (simp_all add: leakage_features_def)
  next
    case 2
    then show ?thesis by (rule check_errors_fault) (simp_all add: leakage_features_def)
  next
    case 3
    then show ?thesis by (rule check_errors_fault) (simp_all add: leakage_features_def)
  next
    case 4
    then show ?thesis by (rule check_errors_fault) (simp_all add: leakage_features_def)
  next
    case 5
    then obtain r where r: "r \<in> set (rows df)" "radius_invalid r"
      "e = row_error PlanetLargerThanStar r"
      by (auto simp: cross_errors_def split: if_splits)
    then show ?thesis
      by (intro bexI [of _ r])
         (simp_all add: row_error_def names_leakage_def fault_at_def radius_invalid_def)
  qed
qed

lemma impute_error_fault:
  assumes "e \<in> set (snd (impute_missing_values df required_features optional st))"
  shows "\<exists>r \<in> set (rows df). err_row e = int (idx r) \<and>
           fault_at (cells r) (err_message e) \<and> \<not> names_leakage (err_message e)"
proof -
  from impute_error_rows [OF assms] obtain r feat where
    r: "r \<in> set (rows df)" "feat \<in> set required_features"
      "e = row_error (RequiredMissing feat) r" "cells r feat = None"
    by blast
  from r(2) have "feat \<notin> set leakage_features" by (rule required_not_leakage)
  with r show ?thesis
    by (intro bexI [of _ r]) (simp_all add: row_error_def names_leakage_def fault_at_def)
qed

lemma outlier_error_fault:
  assumes "e \<in> set (outlier_errors df feats)"
  shows "\<exists>r \<in> set (rows df). err_row e = int (idx r) \<and> (\<forall>c. fault_at c (err_message e))"
  using assms
  by (auto simp: outlier_errors_def row_error_def fault_at_def)

lemma error_rows_descend:
  assumes run: "res = preprocess_csv cols lines st" and ok: "success res"
    and e: "e \<in> set (errors res)"
  shows "\<exists>i \<in> idx ` set (rows (deduplicated cols lines)).
           i < length lines \<and> err_row e = int i \<and> fault_at (snd (lines ! i)) (err_message e)"
proof -
  let ?r0 = "initial_result\<lparr>original_rows := int (length lines)\<rparr>"
  let ?d2 = "deduplicated cols lines"
  have descend: "\<exists>i \<in> idx ` set (rows ?d2).
           i < length lines \<and> err_row e = int i \<and> fault_at (snd (lines ! i)) (err_message e)"
    if r: "r \<in> set (rows ?d2)" "err_row e = int (idx r)"
      "fault_at (cells r) (err_message e)" "\<not> names_leakage (err_message e)" for r
  proof -
    have "fault_at (snd (lines ! idx r)) (err_message e) = fault_at (cells r) (err_message e)"
      by (rule fault_at_cong) (simp_all add: deduplicated_descent(2) [OF r(1)] r(4))
    with r deduplicated_descent(1) [OF r(1)] show ?thesis
      by (intro bexI [of _ "idx r"]) simp_all
  qed
  from ok [unfolded run] show ?thesis
  proof (cases rule: preprocess_success_cases)
    case transformed
    have "success (short_circuit (read_csv cols lines) ?r0)" using ok run transformed(3) by simp
    from short_circuit_success(5) [OF this initial_result_simps(1)] e
    have False by (simp add: run transformed(3) initial_result_simps)
    then show ?thesis ..
  next
    case raw
    have "success (raw_path (read_csv cols lines) st ?r0)" using ok run raw(3) by simp
    from this initial_result_simps(1) obtain df3 e1 df4 e2 df6 e3 where
      v: "validate_physical_ranges ?d2 st = Inr (df3, e1)" and
      imp: "impute_missing_values df3 required_features optional_features st = (df4, e2)" and
      o: "remove_extreme_outliers (apply_log_transforms df4 st) all_features = (df6, e3)" and
      errs: "errors res = e1 @ e2 @ e3"
      unfolding run raw(3) deduplicated_def
      by (rule raw_path_success) (simp_all add: initial_result_simps)
    let ?d5 = "apply_log_transforms df4 st"
    have d3: "set (rows df3) \<subseteq> set (rows ?d2)"
      using validate_result(1) [OF v] by auto
    have d4: "map idx (rows df4) = map idx (filter (has_required df3 required_features) (rows df3))"
      using impute_idx [of df3 required_features optional_features st] by (simp add: imp)
    have d5: "idx ` set (rows ?d5) = idx ` set (rows df4)"
      by (rule idx_image_cong) (simp add: apply_log_transforms_def fold_log_step_idx)
    have e2: "e2 = snd (impute_missing_values df3 required_features optional_features st)"
      by (simp add: imp)
    have e3: "e3 = outlier_errors ?d5 all_features"
      using o by (simp add: remove_extreme_outliers_result)
    from e errs consider "e \<in> set e1" | "e \<in> set e2" | "e \<in> set e3" by auto
    then show ?thesis
    proof cases
      case 1
      from validate_error_fault [OF v 1] obtain r where
        "r \<in> set (rows ?d2)" "err_row e = int (idx r)"
        "fault_at (cells r) (err_message e)" "\<not> names_leakage (err_message e)"
        by blast
      then show ?thesis by (rule descend)
    next
      case 2
      from impute_error_fault [OF 2 [unfolded e2]] d3 obtain r where
        "r \<in> set (rows ?d2)" "err_row e = int (idx r)"
        "fault_at (cells r) (err_message e)" "\<not> names_leakage (err_message e)"
        by blast
      then show ?thesis by (rule descend)
    next
      case 3
      from outlier_error_fault [OF 3 [unfolded e3]] obtain r5 where
        r5: "r5 \<in> set (rows ?d5)" "err_row e = int (idx r5)" "\<And>c. fault_at c (err_message e)"
        by blast
      from r5(1) have "idx r5 \<in> idx ` set (rows df4)" unfolding d5 [symmetric] by simp
      then have "idx r5 \<in> idx ` set (filter (has_required df3 required_features) (rows df3))"
        using idx_image_cong [OF d4] by simp
      with d3 obtain r where r: "r \<in> set (rows ?d2)" "idx r = idx r5" by auto
      from r(1) have "idx r \<in> idx ` set (rows ?d2)" by (rule imageI)
      with deduplicated_descent(1) [OF r(1)] r(2) r5(2,3) show ?thesis
        by (intro bexI [of _ "idx r"]) simp_all
    qed
  qed
qed

section \<open>The scenario of the specification\<close>

lemma read_csv_empty: "(rows (read_csv cols lines) = []) = (lines = [])"
  using read_csv_length [of cols lines] by (metis length_0_conv)

lemma raw_run_succeeds:
  assumes "lines \<noteq> []" and "\<not> is_already_preprocessed (read_csv cols lines)"
    and "\<forall>feat \<in> set required_features. feat \<in> set cols"
  shows "success (preprocess_csv cols lines (reference_stats med))"
proof -
  have req: "fst (validate_required_features (read_csv cols lines) required_features)"
    using assms(3) by (simp add: required_columns_present has_column_def read_csv_def)
  obtain p where
    "validate_physical_ranges (remove_duplicates (remove_leakage_features (read_csv cols lines)))
       (reference_stats med) = Inr p"
    using validate_reference by blast
  with req have "success (raw_path (read_csv cols lines) (reference_stats med) r0)" for r0
    by (simp add: raw_path_def split_def Let_def)
  with assms(1,2) show ?thesis
    by (simp add: preprocess_csv_def Let_def read_csv_empty)
qed

lemma raw_run_parts:
  assumes ok: "success (preprocess_csv cols lines st)"
    and raw: "\<not> is_already_preprocessed (read_csv cols lines)"
  shows "set (output_indices (preprocess_csv cols lines st))
           \<subseteq> idx ` set (rows (deduplicated cols lines))"
    and "set (range_errors (deduplicated cols lines) st)
           \<subseteq> set (errors (preprocess_csv cols lines st))"
proof -
  let ?res = "preprocess_csv cols lines st"
  let ?r0 = "initial_result\<lparr>original_rows := int (length lines)\<rparr>"
  let ?d2 = "deduplicated cols lines"
  from ok have run: "?res = raw_path (read_csv cols lines) st ?r0"
    by (cases rule: preprocess_success_cases) (simp_all add: raw)
  with ok have "success (raw_path (read_csv cols lines) st ?r0)" by simp
  from this initial_result_simps(1) obtain df3 e1 df4 e2 df6 e3 where
    v: "validate_physical_ranges ?d2 st = Inr (df3, e1)" and
    imp: "impute_missing_values df3 required_features optional_features st = (df4, e2)" and
    o: "remove_extreme_outliers (apply_log_transforms df4 st) all_features = (df6, e3)" and
    errs: "errors ?res = e1 @ e2 @ e3" and
    w: "written ?res = Some (select_features df6)"
    unfolding run deduplicated_def
    by (rule raw_path_success) (simp_all add: initial_result_simps)
  let ?d5 = "apply_log_transforms df4 st"
  have d3: "set (rows df3) \<subseteq> set (rows ?d2)"
    using validate_result(1) [OF v] by auto
  have d4: "map idx (rows df4) = map idx (filter (has_required df3 required_features) (rows df3))"
    using impute_idx [of df3 required_features optional_features st] by (simp add: imp)
  have d5: "idx ` set (rows ?d5) = idx ` set (rows df4)"
    by (rule idx_image_cong) (simp add: apply_log_transforms_def fold_log_step_idx)
  have d6: "set (rows df6) \<subseteq> set (rows ?d5)"
    using o by (auto simp: remove_extreme_outliers_result)
  have "idx ` set (rows df6) \<subseteq> idx ` set (rows ?d5)" using d6 by auto
  also have "\<dots> = idx ` set (filter (has_required df3 required_features) (rows df3))"
    unfolding d5 using idx_image_cong [OF d4] .
  also have "\<dots> \<subseteq> idx ` set (rows ?d2)" using d3 by auto
  finally show "set (output_indices ?res) \<subseteq> idx ` set (rows ?d2)"
    by (simp add: output_indices_def w select_features_idx)
  show "set (range_errors ?d2 st) \<subseteq> set (errors ?res)"
    using validate_result(2) [OF v] by (auto simp: errs)
qed

lemma survey_deduplicated:
  "deduplicated survey_cols survey_lines =
     \<lparr>columns = survey_cols,
      rows = [\<lparr>idx = 0, kepoi = Some ''K1'', cells = valid_cells\<rparr>,
              \<lparr>idx = 2, kepoi = Some ''K2'', cells = valid_cells(''koi_period'' := Some (- 1))\<rparr>,
              \<lparr>idx = 3, kepoi = Some ''K3'', cells = valid_cells(''koi_duration'' := None)\<rparr>,
              \<lparr>idx = 4, kepoi = Some ''K4'', cells = valid_cells\<rparr>]\<rparr>"
proof -
  have "remove_leakage_features (read_csv survey_cols survey_lines) =
          read_csv survey_cols survey_lines"
    unfolding survey_frame
    by (simp add: remove_leakage_features_def leakage_features_def leakage_step_def has_column_def
        survey_cols_def)
  then show ?thesis
    unfolding deduplicated_def survey_frame
    by (simp add: remove_duplicates_def has_column_def drop_duplicates_def)
       (simp add: survey_cols_def)
qed

lemma survey_success:
  "success (preprocess_csv survey_cols survey_lines (reference_stats no_medians))"
  by (rule raw_run_succeeds [OF _ survey_raw])
     (simp_all add: survey_lines_def survey_cols_def required_features_def)

lemma survey_deduplicated_idx:
  "idx ` set (rows (deduplicated survey_cols survey_lines)) = {0, 2, 3, 4}"
  unfolding survey_deduplicated by auto

text \<open>The scenario satisfies the hypotheses of the row-conservation theorem.\<close>

theorem row_conservation_witness:
  "processed_rows (preprocess_csv survey_cols survey_lines (reference_stats no_medians)) +
   removed_rows (preprocess_csv survey_cols survey_lines (reference_stats no_medians)) =
     original_rows (preprocess_csv survey_cols survey_lines (reference_stats no_medians)) \<and>
   original_rows (preprocess_csv survey_cols survey_lines (reference_stats no_medians)) = 5"
  using row_conservation [OF refl survey_success] by (simp add: survey_lines_def)

text \<open>
  Claim C3 as stated fails: in the scenario the run succeeds, line 1 (the duplicate of
  line 0) is not in the output, and no entry of the errors list carries the index 1.
\<close>

theorem duplicate_removed_without_error:
  "success (preprocess_csv survey_cols survey_lines (reference_stats no_medians)) \<and>
   1 < length survey_lines \<and>
   1 \<notin> set (output_indices (preprocess_csv survey_cols survey_lines (reference_stats no_medians))) \<and>
   1 \<notin> err_row ` set (errors (preprocess_csv survey_cols survey_lines (reference_stats no_medians)))"
proof -
  let ?res = "preprocess_csv survey_cols survey_lines (reference_stats no_medians)"
  have out: "1 \<notin> set (output_indices ?res)"
    using raw_run_parts(1) [OF survey_success survey_raw] survey_deduplicated_idx by auto
  have "err_row e \<noteq> 1" if "e \<in> set (errors ?res)" for e
  proof -
    from error_rows_descend [OF refl survey_success that] obtain i where
      "i \<in> {0, 2, 3, 4}" "err_row e = int i"
      unfolding survey_deduplicated_idx by blast
    then show ?thesis by auto
  qed
  then have "1 \<notin> err_row ` set (errors ?res)" by (metis imageE)
  with out survey_success show ?thesis by (simp add: survey_lines_def)
qed

section \<open>Skipping and applying the transform\<close>

lemma log_step_length: "length (rows (log_step g df)) = length (rows df)"
  using log_step_idx [of g df] by (metis length_map)

lemma log_step_has_column:
  assumes "c \<noteq> ''log_'' @ g"
  shows "has_column (log_step g df) c = has_column df c"
proof (cases "c = g")
  case True
  show ?thesis
  proof (cases "has_column df g")
    case has: True
    then show ?thesis by (simp add: True log_step_self(2))
  next
    case False
    then show ?thesis by (simp add: True log_step_def)
  qed
next
  case False
  with assms show ?thesis by (simp add: log_step_other(2))
qed

lemma log_step_column_cong:
  assumes "has_column a g = has_column b g" and "column a g = column b g"
  shows "column (log_step g a) g = column (log_step g b) g"
proof (cases "has_column a g")
  case True
  with assms show ?thesis by (simp add: log_step_self(1))
next
  case False
  with assms show ?thesis by (simp add: log_step_def)
qed

lemma log_step_new_column:
  assumes "has_column a g = has_column b g" and "column a g = column b g"
    and "has_column a (''log_'' @ g) = has_column b (''log_'' @ g)"
    and "column a (''log_'' @ g) = column b (''log_'' @ g)"
  shows "has_column (log_step g a) (''log_'' @ g) = has_column (log_step g b) (''log_'' @ g)"
    and "column (log_step g a) (''log_'' @ g) = column (log_step g b) (''log_'' @ g)"
proof -
  have pos: "(filter (positive g) (rows a) = []) = (filter (positive g) (rows b) = [])"
    by (simp add: any_positive_column assms(2))
  have len: "length (rows a) = length (rows b)"
    using assms(2) by (metis column_def length_map)
  have gone: "\<not> has_column (log_step g d) (''log_'' @ g)"
    "column (log_step g d) (''log_'' @ g) = replicate (length (rows d)) None"
    if "has_column d g" "filter (positive g) (rows d) \<noteq> []" for d
  proof -
    from that show "\<not> has_column (log_step g d) (''log_'' @ g)"
      by (simp add: log_step_def Let_def rename_column_def drop_column_def assign_log10_def
          assign_nan_def has_column_def)
    have "cells (set_cell g' None r') g' = None" for g' r'
      by (simp add: set_cell_def)
    with that show "column (log_step g d) (''log_'' @ g) = replicate (length (rows d)) None"
      by (simp add: log_step_def Let_def rename_column_def drop_column_def assign_log10_def
          assign_nan_def column_def o_def map_replicate_const)
  qed
  show "has_column (log_step g a) (''log_'' @ g) = has_column (log_step g b) (''log_'' @ g)"
    "column (log_step g a) (''log_'' @ g) = column (log_step g b) (''log_'' @ g)"
  proof -
    consider (skip) "\<not> has_column a g \<or> filter (positive g) (rows a) = []"
      | (run) "has_column a g" "filter (positive g) (rows a) \<noteq> []" by blast
    then have "has_column (log_step g a) (''log_'' @ g) = has_column (log_step g b) (''log_'' @ g) \<and>
      column (log_step g a) (''log_'' @ g) = column (log_step g b) (''log_'' @ g)"
    proof cases
      case skip
      then have "log_step g a = a" "log_step g b = b"
        using assms(1) pos by (auto simp: log_step_def)
      with assms(3,4) show ?thesis by simp
    next
      case run
      then have "has_column b g" "filter (positive g) (rows b) \<noteq> []"
        using assms(1) pos by simp_all
      from gone [OF run] gone [OF this] len show ?thesis by simp
    qed
    then show "has_column (log_step g a) (''log_'' @ g) = has_column (log_step g b) (''log_'' @ g)"
      "column (log_step g a) (''log_'' @ g) = column (log_step g b) (''log_'' @ g)"
      by simp_all
  qed
qed

lemma log_step_agree:
  assumes "agree_off_leakage a b" and "g \<notin> set leakage_features"
  shows "agree_off_leakage (log_step g a) (log_step g b)"
proof -
  have lg: "''log_'' @ g \<notin> set leakage_features" by (simp add: leakage_features_def)
  from assms have g: "has_column a g = has_column b g" "column a g = column b g"
    unfolding agree_off_leakage_def by blast+
  from assms(1) lg have l: "has_column a (''log_'' @ g) = has_column b (''log_'' @ g)"
      "column a (''log_'' @ g) = column b (''log_'' @ g)"
    unfolding agree_off_leakage_def by blast+
  have "has_column (log_step g a) c = has_column (log_step g b) c \<and>
        column (log_step g a) c = column (log_step g b) c" if c: "c \<notin> set leakage_features" for c
  proof -
    consider "c = g" | "c = ''log_'' @ g" | "c \<noteq> g" "c \<noteq> ''log_'' @ g" by blast
    then show ?thesis
    proof cases
      case 1
      have "c \<noteq> ''log_'' @ g" using 1 by simp
      with 1 g log_step_column_cong [OF g] show ?thesis
        by (simp add: log_step_has_column)
    next
      case 2
      with log_step_new_column [OF g l] show ?thesis by simp
    next
      case 3
      from assms(1) c have "has_column a c = has_column b c" "column a c = column b c"
        unfolding agree_off_leakage_def by blast+
      with 3 show ?thesis
        by (simp add: log_step_other)
    qed
  qed
  moreover have "length (rows (log_step g a)) = length (rows (log_step g b))"
    using assms(1) by (simp only: log_step_length agree_off_leakage_def)
  ultimately show ?thesis
    unfolding agree_off_leakage_def by blast
qed

lemma apply_log_agree:
  assumes "agree_off_leakage a b"
    and "list_all (\<lambda>g. g \<notin> set leakage_features) (log_transform_features st)"
  shows "agree_off_leakage (apply_log_transforms a st) (apply_log_transforms b st)"
proof -
  have "agree_off_leakage (fold log_step gs a) (fold log_step gs b)"
    if "agree_off_leakage a b" "list_all (\<lambda>g. g \<notin> set leakage_features) gs" for gs a b
    using that
  proof (induction gs arbitrary: a b)
    case Nil
    then show ?case by simp
  next
    case (Cons g gs)
    then show ?case by (simp add: log_step_agree)
  qed
  from this [OF assms] show ?thesis by (simp add: apply_log_transforms_def)
qed

lemma remove_leakage_agree: "agree_off_leakage (remove_leakage_features df) df"
  by (simp add: agree_off_leakage_def remove_leakage_rows remove_leakage_column)

lemma filter_same_length: "length (filter P xs) = length xs \<Longrightarrow> filter P xs = xs"
proof (induction xs)
  case Nil
  then show ?case by simp
next
  case (Cons x xs)
  have le: "length (filter P xs) \<le> length xs" by (rule length_filter_le)
  show ?case
  proof (cases "P x")
    case True
    with Cons show ?thesis by simp
  next
    case False
    with Cons.prems have "length (filter P xs) = Suc (length xs)" by simp
    with le show ?thesis by linarith
  qed
qed

lemma fold_log_step_has_column:
  assumes "no_clash gs c"
  shows "has_column (fold log_step gs df) c = has_column df c"
  using assms
proof (induction gs arbitrary: df)
  case Nil
  then show ?case by simp
next
  case (Cons g gs)
  then have "c \<noteq> ''log_'' @ g" "no_clash gs c" by (simp_all add: no_clash_def)
  with Cons.IH [of "log_step g df"] show ?case by (simp add: log_step_has_column)
qed

lemma feature_no_clash: "c \<in> set all_features \<Longrightarrow> no_clash gs c"
  by (auto simp: all_features_def required_features_def optional_features_def no_clash_def
      list_all_iff)

lemma feature_not_leakage: "c \<in> set all_features \<Longrightarrow> c \<notin> set leakage_features"
  by (auto simp: all_features_def required_features_def optional_features_def leakage_features_def)

lemma csv_roundtrip:
  "columns (read_csv (columns df) (csv_lines df)) = columns df"
  "column (read_csv (columns df) (csv_lines df)) c = column df c"
  "has_column (read_csv (columns df) (csv_lines df)) c = has_column df c"
  "length (csv_lines df) = length (rows df)"
proof -
  have "map (\<lambda>r. cells r c)
          (map (\<lambda>(i, l). \<lparr>idx = i, kepoi = fst l, cells = snd l\<rparr>)
             (enumerate n (map (\<lambda>r. (kepoi r, cells r)) rs))) = map (\<lambda>r. cells r c) rs"
    for n and rs :: "row list"
    by (induction rs arbitrary: n) simp_all
  then show "column (read_csv (columns df) (csv_lines df)) c = column df c"
    by (simp add: column_def read_csv_def csv_lines_def)
qed (simp_all add: read_csv_def csv_lines_def has_column_def)

lemma to_csv_select:
  "to_csv (select_features df) =
     (filter (has_column df) all_features,
      map (\<lambda>r. map (cells r) (filter (has_column df) all_features)) (rows df))"
proof -
  let ?fs = "filter (has_column df) all_features"
  have "map (\<lambda>f. if f \<in> set ?fs then g f else None) ?fs = map g ?fs"
    for g :: "string \<Rightarrow> real option"
    by (rule map_cong [OF refl]) simp
  then show ?thesis
    by (simp add: to_csv_def select_features_def Let_def o_def del: set_filter)
qed

lemma to_csv_select_cong:
  assumes "length (rows a) = length (rows b)"
    and "\<And>c. c \<in> set all_features \<Longrightarrow> has_column a c = has_column b c"
    and "\<And>c. c \<in> set all_features \<Longrightarrow> column a c = column b c"
  shows "to_csv (select_features a) = to_csv (select_features b)"
proof -
  have av: "filter (has_column a) all_features = filter (has_column b) all_features"
    using assms(2) by (auto intro: filter_cong)
  let ?fs = "filter (has_column b) all_features"
  have "map (\<lambda>r. map (cells r) ?fs) (rows a) = map (\<lambda>r. map (cells r) ?fs) (rows b)"
  proof (rule nth_equalityI)
    show "length (map (\<lambda>r. map (cells r) ?fs) (rows a)) =
          length (map (\<lambda>r. map (cells r) ?fs) (rows b))"
      using assms(1) by simp
  next
    fix i assume "i < length (map (\<lambda>r. map (cells r) ?fs) (rows a))"
    then have i: "i < length (rows a)" "i < length (rows b)" using assms(1) by simp_all
    have "cells (rows a ! i) c = cells (rows b ! i) c" if "c \<in> set ?fs" for c
    proof -
      from that have "column a c = column b c" by (simp add: assms(3))
      then have "column a c ! i = column b c ! i" by simp
      with i show ?thesis by (simp add: column_def)
    qed
    with i show "map (\<lambda>r. map (cells r) ?fs) (rows a) ! i = map (\<lambda>r. map (cells r) ?fs) (rows b) ! i"
      by simp
  qed
  then show ?thesis
    by (simp add: to_csv_select av)
qed

lemma fill_row_same:
  assumes "\<And>feat. feat \<in> set feats \<Longrightarrow> cells r feat \<noteq> None"
  shows "fill_row med feats r = r"
proof -
  have "(\<lambda>feat. if feat \<in> set feats
               then (case cells r feat of None \<Rightarrow> med feat | Some v \<Rightarrow> Some v)
               else cells r feat) = cells r"
  proof
    fix feat
    show "(if feat \<in> set feats
           then (case cells r feat of None \<Rightarrow> med feat | Some v \<Rightarrow> Some v)
           else cells r feat) = cells r feat"
      using assms [of feat] by (cases "cells r feat") auto
  qed
  then show ?thesis by (simp add: fill_row_def)
qed

lemma optional_not_leakage: "feat \<in> set optional_features \<Longrightarrow> feat \<notin> set leakage_features"
  by (auto simp: optional_features_def leakage_features_def)

text \<open>A raw run that removes no row and finds no optional value missing only transforms.\<close>

lemma clean_raw_run:
  assumes raw: "\<not> is_already_preprocessed (read_csv cols lines)"
    and ok: "success (preprocess_csv cols lines st)"
    and kept: "removed_rows (preprocess_csv cols lines st) = 0"
    and full: "list_all (optional_complete cols) lines"
  shows "written (preprocess_csv cols lines st) =
           Some (select_features
                   (apply_log_transforms (remove_leakage_features (read_csv cols lines)) st))"
    and "fst (validate_required_features (read_csv cols lines) required_features)"
    and "lines \<noteq> []"
proof -
  let ?res = "preprocess_csv cols lines st"
  let ?r0 = "initial_result\<lparr>original_rows := int (length lines)\<rparr>"
  let ?d0 = "read_csv cols lines"
  let ?d1 = "remove_leakage_features ?d0"
  let ?d2 = "remove_duplicates ?d1"
  from ok have run: "?res = raw_path ?d0 st ?r0" and ne: "lines \<noteq> []"
    by (cases rule: preprocess_success_cases; simp add: raw)+
  with ok have "success (raw_path ?d0 st ?r0)" by simp
  from this initial_result_simps(1) obtain df3 e1 df4 e2 df6 e3 where
    req: "fst (validate_required_features ?d0 required_features)" and
    v: "validate_physical_ranges ?d2 st = Inr (df3, e1)" and
    imp: "impute_missing_values df3 required_features optional_features st = (df4, e2)" and
    o: "remove_extreme_outliers (apply_log_transforms df4 st) all_features = (df6, e3)" and
    w: "written ?res = Some (select_features df6)" and
    rem: "removed_rows ?res = int (length lines) - int (length (rows df6))"
    unfolding run
    by (rule raw_path_success) (simp_all add: initial_result_simps)
  let ?d5 = "apply_log_transforms df4 st"
  let ?hr = "has_required df3 required_features"
  let ?opt = "filter (has_column df3) optional_features"
  have d6: "df6 = ?d5\<lparr>rows := filter (\<lambda>r. \<not> outlier_rejected ?d5 all_features r) (rows ?d5)\<rparr>"
    using o by (auto simp: remove_extreme_outliers_result)
  have d5: "length (rows ?d5) = length (rows df4)"
    using fold_log_step_idx [of "log_transform_features st" df4]
    by (metis apply_log_transforms_def length_map)
  have d4: "rows df4 = map (fill_row (medians_pretransform st) ?opt) (filter ?hr (rows df3))"
    using impute_rows [of df3 required_features optional_features st] by (simp add: imp)
  have c4: "columns df4 = columns df3"
    using impute_columns [of df3 required_features optional_features st] by (simp add: imp)
  have d3: "df3 = ?d2\<lparr>rows := filter (\<lambda>r. \<not> row_rejected ?d2 st r) (rows ?d2)\<rparr>"
    using validate_result(1) [OF v] .
  have d2: "subseq (rows ?d2) (rows ?d1)" by (rule remove_duplicates_rows)
  have d1: "length (rows ?d1) = length lines"
    by (simp add: remove_leakage_rows read_csv_length)
  have l6: "length (rows df6) \<le> length (rows ?d5)" by (simp add: d6)
  have l4: "length (rows df4) \<le> length (rows df3)" by (simp add: d4)
  have l3: "length (rows df3) \<le> length (rows ?d2)" by (simp add: d3)
  have l2: "length (rows ?d2) \<le> length (rows ?d1)"
    using d2 by (rule list_emb_length)
  from kept rem have n: "length (rows df6) = length lines" by simp
  from n l6 l4 l3 l2 d5 d1 have
    e6: "length (rows df6) = length (rows ?d5)" and
    e4: "length (rows df4) = length (rows df3)" and
    e3: "length (rows df3) = length (rows ?d2)" and
    e2: "length (rows ?d2) = length (rows ?d1)"
    by linarith+
  have s2: "?d2 = ?d1"
  proof -
    from d2 e2 have "rows ?d2 = rows ?d1" by (rule subseq_same_length)
    moreover have "columns ?d2 = columns ?d1" by (rule remove_duplicates_columns)
    ultimately show ?thesis by (intro table.equality) simp_all
  qed
  have s3: "df3 = ?d1"
  proof -
    from e3 have "filter (\<lambda>r. \<not> row_rejected ?d2 st r) (rows ?d2) = rows ?d2"
      by (intro filter_same_length) (simp add: d3)
    with d3 show ?thesis by (simp add: s2)
  qed
  have s4: "df4 = ?d1"
  proof -
    from e4 have keep: "filter ?hr (rows df3) = rows df3"
      by (intro filter_same_length) (simp add: d4)
    have "fill_row (medians_pretransform st) ?opt r = r" if r: "r \<in> set (rows df3)" for r
    proof (rule fill_row_same)
      fix feat assume "feat \<in> set ?opt"
      then have feat: "feat \<in> set optional_features" "has_column ?d1 feat"
        by (simp_all add: s3)
      then have nl: "feat \<notin> set leakage_features" by (simp add: optional_not_leakage)
      with feat(2) have "has_column ?d0 feat"
        by (simp add: remove_leakage_column(2))
      then have col: "feat \<in> set cols"
        by (simp add: has_column_def read_csv_def)
      from r obtain r0 where r0: "r0 \<in> set (rows ?d0)" "cells r feat = cells r0 feat"
        using remove_leakage_descent [of r ?d0] nl by (auto simp: s3)
      from read_csv_nth [OF r0(1)] have "idx r0 < length lines" "cells r0 = snd (lines ! idx r0)"
        by simp_all
      moreover from full have "optional_complete cols l" if "l \<in> set lines" for l
        using that by (simp add: list_all_iff)
      ultimately have "optional_complete cols (lines ! idx r0)" by simp
      with feat(1) col have "snd (lines ! idx r0) feat \<noteq> None"
        by (simp add: optional_complete_def list_all_iff)
      with r0(2) \<open>cells r0 = snd (lines ! idx r0)\<close> show "cells r feat \<noteq> None" by simp
    qed
    then have "rows df4 = rows df3"
      unfolding d4 keep by (simp add: map_idI)
    with c4 show ?thesis by (intro table.equality) (simp_all add: s3)
  qed
  have s6: "df6 = apply_log_transforms ?d1 st"
  proof -
    from e6 have "filter (\<lambda>r. \<not> outlier_rejected ?d5 all_features r) (rows ?d5) = rows ?d5"
      by (intro filter_same_length) (simp add: d6)
    with d6 show ?thesis by (simp add: s4)
  qed
  show "written ?res = Some (select_features (apply_log_transforms ?d1 st))"
    by (simp add: w s6)
  show "fst (validate_required_features ?d0 required_features)" by (rule req)
  show "lines \<noteq> []" by (rule ne)
qed

text \<open>
  Claim C1, as amended. Take a table in natural units that the detector classifies as raw,
  from which the raw branch removes no row and in which no optional value is missing, and
  whose log-transformed equivalent (the loaded table after the magnitude transformer) the
  detector classifies as already transformed. Then the run on the equivalent succeeds as
  well and the two runs write the same feature matrix: the transform is applied in the
  first run and skipped in the second. The log-transform list must not name a leakage
  column, as the default list does not. Numbers are reals here, so the matrices are equal
  exactly.
\<close>

theorem transform_applied_or_skipped:
  assumes raw: "\<not> is_already_preprocessed (read_csv cols lines)"
    and ok: "success (preprocess_csv cols lines st)"
    and kept: "removed_rows (preprocess_csv cols lines st) = 0"
    and full: "list_all (optional_complete cols) lines"
    and logs: "list_all (\<lambda>g. g \<notin> set leakage_features) (log_transform_features st)"
    and equivalent: "L = log_equivalent cols lines st"
    and detected: "is_already_preprocessed (read_csv (columns L) (csv_lines L))"
  shows "success (preprocess_csv (columns L) (csv_lines L) st) \<and>
         written (preprocess_csv cols lines st) \<noteq> None \<and>
         map_option to_csv (written (preprocess_csv (columns L) (csv_lines L) st)) =
           map_option to_csv (written (preprocess_csv cols lines st))"
proof -
  let ?d0 = "read_csv cols lines"
  let ?a = "apply_log_transforms (remove_leakage_features ?d0) st"
  let ?b = "read_csv (columns L) (csv_lines L)"
  let ?r0 = "initial_result\<lparr>original_rows := int (length (rows ?b))\<rparr>"
  note clean = clean_raw_run [OF raw ok kept full]
  have L: "L = fold log_step (log_transform_features st) ?d0"
    by (simp add: equivalent log_equivalent_def apply_log_transforms_def)
  have lenL: "length (rows L) = length lines"
    using fold_log_step_idx [of "log_transform_features st" ?d0] read_csv_length [of cols lines]
    unfolding L by (metis length_map)
  have lenA: "length (rows ?a) = length lines"
    using fold_log_step_idx [of "log_transform_features st" "remove_leakage_features ?d0"]
      remove_leakage_rows(3) [of ?d0] read_csv_length [of cols lines]
    unfolding apply_log_transforms_def by (metis length_map)
  have lenB: "length (rows ?b) = length lines"
    by (simp add: read_csv_length csv_roundtrip(4) lenL)
  have colL: "has_column L c = has_column ?d0 c" if "c \<in> set all_features" for c
    unfolding L using feature_no_clash [OF that] by (rule fold_log_step_has_column)
  have agree: "agree_off_leakage ?a L"
    unfolding equivalent log_equivalent_def
    by (rule apply_log_agree [OF remove_leakage_agree logs])
  have req: "fst (validate_required_features ?b required_features)"
  proof -
    have "has_column ?b feat" if "feat \<in> set required_features" for feat
    proof -
      from that have "feat \<in> set all_features" by (simp add: all_features_def)
      from colL [OF this] clean(2) that show ?thesis
        by (simp add: csv_roundtrip(3) required_columns_present)
    qed
    then show ?thesis by (simp add: required_columns_present)
  qed
  have "rows ?b \<noteq> []" using clean(3) lenB by (metis length_0_conv)
  with detected have run: "preprocess_csv (columns L) (csv_lines L) st = short_circuit ?b ?r0"
    by (simp add: preprocess_csv_def Let_def)
  have ok2: "success (preprocess_csv (columns L) (csv_lines L) st)"
    unfolding run using req by (simp add: short_circuit_def split_def Let_def)
  have w2: "written (preprocess_csv (columns L) (csv_lines L) st) = Some (select_features ?b)"
    using short_circuit_success(1) [OF ok2 [unfolded run]] run
    by (simp add: initial_result_def)
  have "to_csv (select_features ?b) = to_csv (select_features ?a)"
  proof (rule to_csv_select_cong)
    show "length (rows ?b) = length (rows ?a)" by (simp add: lenA lenB)
  next
    fix c assume "c \<in> set all_features"
    then have "c \<notin> set leakage_features" by (rule feature_not_leakage)
    with agree have "has_column ?a c = has_column L c" "column ?a c = column L c"
      unfolding agree_off_leakage_def by blast+
    then show "has_column ?b c = has_column ?a c" "column ?b c = column ?a c"
      by (simp_all add: csv_roundtrip)
  qed
  with ok2 w2 clean(1) show ?thesis by simp
qed

lemma dropna_values_column: "dropna_values df c = List.map_filter id (column df c)"
  by (simp add: dropna_values_def column_def List.map_filter_def filter_map o_def)

lemma detector_cong:
  assumes "\<And>c. has_column a c = has_column b c" and "\<And>c. column a c = column b c"
  shows "is_already_preprocessed a = is_already_preprocessed b"
proof -
  have "has_column a = has_column b" using assms(1) by (simp add: fun_eq_iff)
  moreover have "dropna_values a = dropna_values b"
    using assms(2) by (simp add: fun_eq_iff dropna_values_column)
  then have "detect_step a = detect_step b"
    by (simp add: detect_step_def fun_eq_iff)
  ultimately show ?thesis by (simp add: is_already_preprocessed_def)
qed

lemma detector_of_written_back:
  "is_already_preprocessed (read_csv (columns df) (csv_lines df)) = is_already_preprocessed df"
  by (rule detector_cong) (simp_all add: csv_roundtrip)

lemma single_frame:
  "read_csv logged_cols single_lines =
     \<lparr>columns = logged_cols, rows = [\<lparr>idx = 0, kepoi = None, cells = valid_cells\<rparr>]\<rparr>"
  by (simp add: read_csv_def single_lines_def enumerate_eq_zip)

lemma single_raw: "\<not> is_already_preprocessed (read_csv logged_cols single_lines)"
  unfolding single_frame
  by (simp add: is_already_preprocessed_def detector_log_features_def has_column_def logged_cols_def
      detect_step_def dropna_values_def List.map_filter_def valid_cells_simps votes_transformed_def)

lemma single_equivalent_detected:
  "is_already_preprocessed (log_equivalent logged_cols single_lines (reference_stats no_medians))"
  unfolding log_equivalent_def single_frame
  by (simp add: apply_log_transforms_def reference_stats_def default_log_features_def
      log_step_def has_column_def logged_cols_def positive_def valid_cells_simps
      assign_nan_def assign_log10_def drop_column_def rename_column_def set_cell_def
      is_already_preprocessed_def detector_log_features_def
      detect_step_def dropna_values_def List.map_filter_def votes_transformed_def)

lemma quantile_single: "quantile [v] q = v"
  by (simp add: quantile_def)

lemma single_row_no_outlier:
  assumes "rows df = [r]"
  shows "\<not> outlier_rejected df feats r"
proof -
  have "\<not> outlier_invalid df feat r" for feat
  proof (cases "cells r feat")
    case None
    then show ?thesis by (simp add: outlier_invalid_def Let_def)
  next
    case (Some v)
    with assms have "dropna_values df feat = [v]"
      by (simp add: dropna_values_def List.map_filter_def)
    with Some show ?thesis by (simp add: outlier_invalid_def Let_def quantile_single)
  qed
  then show ?thesis by (simp add: outlier_rejected_def outlier_fails_def list_ex_iff)
qed

lemma single_line_kept:
  assumes ok: "success (preprocess_csv cols [l] st)"
    and raw: "\<not> is_already_preprocessed (read_csv cols [l])"
    and one: "rows (deduplicated cols [l]) = [r]"
    and valid: "\<not> row_rejected (deduplicated cols [l]) st r"
    and complete: "has_required (deduplicated cols [l]) required_features r"
  shows "removed_rows (preprocess_csv cols [l] st) = 0"
proof -
  let ?res = "preprocess_csv cols [l] st"
  let ?r0 = "initial_result\<lparr>original_rows := int (length [l])\<rparr>"
  let ?d2 = "deduplicated cols [l]"
  from ok have run: "?res = raw_path (read_csv cols [l]) st ?r0"
    by (cases rule: preprocess_success_cases) (simp_all add: raw)
  with ok have "success (raw_path (read_csv cols [l]) st ?r0)" by simp
  from this initial_result_simps(1) obtain df3 e1 df4 e2 df6 e3 where
    v: "validate_physical_ranges ?d2 st = Inr (df3, e1)" and
    imp: "impute_missing_values df3 required_features optional_features st = (df4, e2)" and
    o: "remove_extreme_outliers (apply_log_transforms df4 st) all_features = (df6, e3)" and
    rem: "removed_rows ?res = int (length [l]) - int (length (rows df6))"
    unfolding run deduplicated_def
    by (rule raw_path_success) (simp_all add: initial_result_simps)
  let ?d5 = "apply_log_transforms df4 st"
  have d3: "df3 = ?d2\<lparr>rows := [r]\<rparr>"
    using validate_result(1) [OF v] one valid by simp
  have hc: "has_column df3 = has_column ?d2"
    by (simp add: has_column_def fun_eq_iff d3)
  have "has_required df3 required_features r = has_required ?d2 required_features r"
    unfolding has_required_def hc ..
  moreover have "length (rows df4) = length (filter (has_required df3 required_features) (rows df3))"
    using impute_rows [of df3 required_features optional_features st] by (simp add: imp)
  moreover have "rows df3 = [r]" by (simp add: d3)
  ultimately have "length (rows df4) = 1"
    using complete by simp
  then have "length (rows ?d5) = 1"
    using fold_log_step_idx [of "log_transform_features st" df4]
    by (metis apply_log_transforms_def length_map)
  then obtain r5 where r5: "rows ?d5 = [r5]"
    by (cases "rows ?d5") simp_all
  from single_row_no_outlier [OF this] have "rows df6 = [r5]"
    using o by (auto simp: remove_extreme_outliers_result r5)
  with rem show ?thesis by simp
qed

lemma raw_run_survivors:
  assumes ok: "success (preprocess_csv cols lines st)"
    and raw: "\<not> is_already_preprocessed (read_csv cols lines)"
  shows "set (output_indices (preprocess_csv cols lines st))
           \<subseteq> idx ` set (filter (\<lambda>r. \<not> row_rejected (deduplicated cols lines) st r)
                          (rows (deduplicated cols lines)))"
proof -
  let ?res = "preprocess_csv cols lines st"
  let ?r0 = "initial_result\<lparr>original_rows := int (length lines)\<rparr>"
  let ?d2 = "deduplicated cols lines"
  from ok have run: "?res = raw_path (read_csv cols lines) st ?r0"
    by (cases rule: preprocess_success_cases) (simp_all add: raw)
  with ok have "success (raw_path (read_csv cols lines) st ?r0)" by simp
  from this initial_result_simps(1) obtain df3 e1 df4 e2 df6 e3 where
    v: "validate_physical_ranges ?d2 st = Inr (df3, e1)" and
    imp: "impute_missing_values df3 required_features optional_features st = (df4, e2)" and
    o: "remove_extreme_outliers (apply_log_transforms df4 st) all_features = (df6, e3)" and
    w: "written ?res = Some (select_features df6)"
    unfolding run deduplicated_def
    by (rule raw_path_success) (simp_all add: initial_result_simps)
  let ?d5 = "apply_log_transforms df4 st"
  have d3: "rows df3 = filter (\<lambda>r. \<not> row_rejected ?d2 st r) (rows ?d2)"
    using validate_result(1) [OF v] by simp
  have d4: "map idx (rows df4) = map idx (filter (has_required df3 required_features) (rows df3))"
    using impute_idx [of df3 required_features optional_features st] by (simp add: imp)
  have d5: "idx ` set (rows ?d5) = idx ` set (rows df4)"
    by (rule idx_image_cong) (simp add: apply_log_transforms_def fold_log_step_idx)
  have d6: "set (rows df6) \<subseteq> set (rows ?d5)"
    using o by (auto simp: remove_extreme_outliers_result)
  have "idx ` set (rows df6) \<subseteq> idx ` set (rows ?d5)" using d6 by auto
  also have "\<dots> = idx ` set (filter (has_required df3 required_features) (rows df3))"
    unfolding d5 using idx_image_cong [OF d4] .
  also have "\<dots> \<subseteq> idx ` set (rows df3)" by auto
  finally show ?thesis
    by (simp add: output_indices_def w select_features_idx d3)
qed

lemma transformed_run:
  assumes "is_already_preprocessed (read_csv cols lines)" and "lines \<noteq> []"
    and "\<forall>feat \<in> set required_features. feat \<in> set cols"
  shows "success (preprocess_csv cols lines st)"
    and "output_indices (preprocess_csv cols lines st) = [0..<length lines]"
proof -
  let ?b = "read_csv cols lines"
  let ?r0 = "initial_result\<lparr>original_rows := int (length (rows ?b))\<rparr>"
  have req: "fst (validate_required_features ?b required_features)"
    using assms(3) by (simp add: required_columns_present has_column_def read_csv_def)
  have run: "preprocess_csv cols lines st = short_circuit ?b ?r0"
    using assms(1,2) by (simp add: preprocess_csv_def Let_def read_csv_empty)
  show ok: "success (preprocess_csv cols lines st)"
    unfolding run using req by (simp add: short_circuit_def split_def Let_def)
  from short_circuit_success(1) [OF ok [unfolded run]]
  have "written (preprocess_csv cols lines st) = Some (select_features ?b)"
    unfolding run by (simp add: initial_result_def)
  then show "output_indices (preprocess_csv cols lines st) = [0..<length lines]"
    by (simp add: output_indices_def select_features_idx read_csv_idx)
qed

lemma log_equivalent_shape:
  "length (csv_lines (log_equivalent cols lines st)) = length lines"
  "feat \<in> set all_features \<Longrightarrow>
     (feat \<in> set (columns (log_equivalent cols lines st))) = (feat \<in> set cols)"
proof -
  show "length (csv_lines (log_equivalent cols lines st)) = length lines"
    using fold_log_step_idx [of "log_transform_features st" "read_csv cols lines"]
      read_csv_length [of cols lines]
    unfolding csv_roundtrip(4) log_equivalent_def apply_log_transforms_def
    by (metis length_map)
  assume "feat \<in> set all_features"
  from fold_log_step_has_column [OF feature_no_clash [OF this], of "log_transform_features st"
      "read_csv cols lines"]
  show "(feat \<in> set (columns (log_equivalent cols lines st))) = (feat \<in> set cols)"
    by (simp add: log_equivalent_def apply_log_transforms_def has_column_def read_csv_def)
qed

lemma single_deduplicated:
  "deduplicated logged_cols [(k, c)] =
     \<lparr>columns = logged_cols, rows = [\<lparr>idx = 0, kepoi = k, cells = c\<rparr>]\<rparr>"
  by (simp add: deduplicated_def read_csv_def enumerate_eq_zip remove_leakage_features_def
      leakage_features_def leakage_step_def remove_duplicates_def has_column_def logged_cols_def)

text \<open>
  A table of one valid line: it is raw, the raw branch keeps the line, its equivalent is
  detected as transformed, and both runs write the same matrix.
\<close>

theorem transform_applied_or_skipped_witness:
  "success (preprocess_csv (columns single_equivalent) (csv_lines single_equivalent)
              (reference_stats no_medians)) \<and>
   written (preprocess_csv logged_cols single_lines (reference_stats no_medians)) \<noteq> None \<and>
   map_option to_csv
     (written (preprocess_csv (columns single_equivalent) (csv_lines single_equivalent)
                 (reference_stats no_medians))) =
   map_option to_csv (written (preprocess_csv logged_cols single_lines (reference_stats no_medians)))"
proof -
  let ?st = "reference_stats no_medians"
  have ok: "success (preprocess_csv logged_cols single_lines ?st)"
    by (rule raw_run_succeeds [OF _ single_raw])
       (simp_all add: single_lines_def logged_cols_def required_features_def)
  have valid: "\<not> row_rejected (deduplicated logged_cols [(None, valid_cells)]) ?st
                  \<lparr>idx = 0, kepoi = None, cells = valid_cells\<rparr>"
    unfolding single_deduplicated
    by (simp add: row_rejected_def range_rejected_def cross_rejected_def range_fails_def
        has_column_def logged_cols_def reference_stats_def default_ranges_def period_invalid_def
        range_invalid_def valid_cells_simps)
  have complete: "has_required (deduplicated logged_cols [(None, valid_cells)]) required_features
                    \<lparr>idx = 0, kepoi = None, cells = valid_cells\<rparr>"
    unfolding single_deduplicated
    by (simp add: has_required_def required_features_def has_column_def logged_cols_def
        valid_cells_simps)
  have kept: "removed_rows (preprocess_csv logged_cols single_lines ?st) = 0"
    unfolding single_lines_def
    by (rule single_line_kept [OF ok [unfolded single_lines_def] single_raw [unfolded single_lines_def]
          _ valid complete])
       (simp add: single_deduplicated)
  have full: "list_all (optional_complete logged_cols) single_lines"
    by (simp add: single_lines_def optional_complete_def optional_features_def logged_cols_def)
  have logs: "list_all (\<lambda>g. g \<notin> set leakage_features) (log_transform_features ?st)"
    by (simp add: reference_stats_def default_log_features_def leakage_features_def)
  have detected: "is_already_preprocessed
      (read_csv (columns single_equivalent) (csv_lines single_equivalent))"
    unfolding detector_of_written_back single_equivalent_def
    by (rule single_equivalent_detected)
  from transform_applied_or_skipped [OF single_raw ok kept full logs single_equivalent_def detected]
  show ?thesis .
qed

lemma shallow_frame:
  "read_csv logged_cols shallow_lines =
     \<lparr>columns = logged_cols,
      rows = [\<lparr>idx = 0, kepoi = None, cells = valid_cells(''koi_depth'' := Some 1)\<rparr>]\<rparr>"
  by (simp add: read_csv_def shallow_lines_def enumerate_eq_zip)

lemma shallow_raw: "\<not> is_already_preprocessed (read_csv logged_cols shallow_lines)"
  unfolding shallow_frame
  by (simp add: is_already_preprocessed_def detector_log_features_def has_column_def logged_cols_def
      detect_step_def dropna_values_def List.map_filter_def valid_cells_simps votes_transformed_def)

lemma shallow_equivalent_detected: "is_already_preprocessed shallow_equivalent"
  unfolding shallow_equivalent_def log_equivalent_def shallow_frame
  by (simp add: apply_log_transforms_def reference_stats_def default_log_features_def
      log_step_def has_column_def logged_cols_def positive_def valid_cells_simps
      assign_nan_def assign_log10_def drop_column_def rename_column_def set_cell_def
      is_already_preprocessed_def detector_log_features_def
      detect_step_def dropna_values_def List.map_filter_def votes_transformed_def)

text \<open>
  Claim C1 as stated fails. The table has one line with the transit depth 1, below the
  valid range \<open>[10, 100000]\<close>. On the table in natural units the detector answers "raw" and
  the range filter removes the line: the output has no row. On the log-transformed
  equivalent the detector answers "already transformed" and the line is written: the
  output has one row. No tolerance makes the two matrices equal.
\<close>

theorem raw_and_transformed_outputs_differ:
  "\<not> is_already_preprocessed (read_csv logged_cols shallow_lines) \<and>
   is_already_preprocessed (read_csv (columns shallow_equivalent) (csv_lines shallow_equivalent)) \<and>
   success (preprocess_csv logged_cols shallow_lines (reference_stats no_medians)) \<and>
   output_indices (preprocess_csv logged_cols shallow_lines (reference_stats no_medians)) = [] \<and>
   success (preprocess_csv (columns shallow_equivalent) (csv_lines shallow_equivalent)
              (reference_stats no_medians)) \<and>
   output_indices (preprocess_csv (columns shallow_equivalent) (csv_lines shallow_equivalent)
                     (reference_stats no_medians)) = [0]"
proof -
  let ?st = "reference_stats no_medians"
  have ok: "success (preprocess_csv logged_cols shallow_lines ?st)"
    by (rule raw_run_succeeds [OF _ shallow_raw])
       (simp_all add: shallow_lines_def logged_cols_def required_features_def)
  have "row_rejected (deduplicated logged_cols shallow_lines) ?st
          \<lparr>idx = 0, kepoi = None, cells = valid_cells(''koi_depth'' := Some 1)\<rparr>"
    unfolding shallow_lines_def single_deduplicated
    by (simp add: row_rejected_def range_rejected_def range_fails_def has_column_def
        logged_cols_def reference_stats_def default_ranges_def range_invalid_def)
  then have "filter (\<lambda>r. \<not> row_rejected (deduplicated logged_cols shallow_lines) ?st r)
               (rows (deduplicated logged_cols shallow_lines)) = []"
    by (simp add: shallow_lines_def single_deduplicated)
  with raw_run_survivors [OF ok shallow_raw]
  have out1: "output_indices (preprocess_csv logged_cols shallow_lines ?st) = []"
    by simp
  have detected: "is_already_preprocessed
      (read_csv (columns shallow_equivalent) (csv_lines shallow_equivalent))"
    unfolding detector_of_written_back by (rule shallow_equivalent_detected)
  have len: "length (csv_lines shallow_equivalent) = 1"
    by (simp add: shallow_equivalent_def log_equivalent_shape(1) shallow_lines_def)
  then have ne: "csv_lines shallow_equivalent \<noteq> []" by auto
  have cols: "\<forall>feat \<in> set required_features. feat \<in> set (columns shallow_equivalent)"
    by (simp add: shallow_equivalent_def log_equivalent_shape(2) all_features_def)
       (simp add: required_features_def logged_cols_def)
  from transformed_run [OF detected ne cols, of ?st] ok out1 shallow_raw detected len
  show ?thesis by simp
qed

section \<open>Outlier entries\<close>

lemma fold_log_step_column:
  assumes "no_clash gs c"
  shows "\<exists>m \<le> count_list gs c. column (fold log_step gs df) c = map (log_cell ^^ m) (column df c)"
  using assms
proof (induction gs arbitrary: df)
  case Nil
  then show ?case by simp
next
  case (Cons g gs)
  then have nc: "c \<noteq> ''log_'' @ g" "no_clash gs c" by (simp_all add: no_clash_def)
  from Cons.IH [OF nc(2), of "log_step g df"] obtain m where
    m: "m \<le> count_list gs c"
      "column (fold log_step gs (log_step g df)) c = map (log_cell ^^ m) (column (log_step g df) c)"
    by blast
  show ?case
  proof (cases "g = c")
    case False
    with nc(1) have "column (log_step g df) c = column df c" by (simp add: log_step_other(1))
    with m False show ?thesis by (intro exI [of _ m]) simp
  next
    case True
    show ?thesis
    proof (cases "has_column df c \<and> list_ex cell_positive (column df c)")
      case run: True
      then have "column (log_step g df) c = map log_cell (column df c)"
        by (simp add: True log_step_self(1))
      with m True show ?thesis
        by (intro exI [of _ "Suc m"]) (simp add: funpow_swap1)
    next
      case False
      have "column (log_step g df) c = column df c"
      proof (cases "has_column df c")
        case has: True
        with False show ?thesis by (simp add: True log_step_self(1))
      next
        case False
        then show ?thesis by (simp add: True log_step_def)
      qed
      with m True show ?thesis by (intro exI [of _ m]) simp
    qed
  qed
qed

lemma subseq_distinct_labels:
  assumes "subseq xs ys" and "distinct (map idx ys)"
  shows "distinct (map idx xs)"
proof -
  from assms(1) have "subseq (map idx xs) (map idx ys)" by (rule subseq_map)
  then obtain N where "map idx xs = nths (map idx ys) N" by (auto simp: subseq_conv_nths)
  with assms(2) show ?thesis by simp
qed

lemma deduplicated_labels: "distinct (map idx (rows (deduplicated cols lines)))"
proof -
  have "distinct (map idx (rows (remove_leakage_features (read_csv cols lines))))"
    by (simp add: remove_leakage_rows(1) read_csv_idx)
  with remove_duplicates_rows show ?thesis
    unfolding deduplicated_def by (rule subseq_distinct_labels)
qed

lemma range_error_message:
  assumes "validate_physical_ranges df st = Inr (df', errs)" and "e \<in> set errs"
  shows "err_message e \<noteq> ExtremeOutlier feat"
proof -
  have ce: "err_message e \<noteq> ExtremeOutlier feat"
    if "e \<in> set (check_errors df st f test)" for f test
  proof (cases "valid_ranges st f")
    case None
    have "check_errors df st f test = []"
      unfolding check_errors_def None by simp
    with that have False by simp
    then show ?thesis ..
  next
    case (Some rg)
    obtain lo hi where rg: "rg = (lo, hi)" by (cases rg)
    from that obtain r where "e = row_error (OutOfRange f lo hi) r"
      by (cases "has_column df f") (auto simp: check_errors_def Some rg)
    then show ?thesis by (simp add: row_error_def)
  qed
  from validate_result(2) [OF assms(1)] assms(2)
  consider "e \<in> set (check_errors df st ''koi_period'' period_invalid)"
    | "e \<in> set (check_errors df st ''koi_prad'' (range_invalid ''koi_prad''))"
    | "e \<in> set (check_errors df st ''koi_depth'' (range_invalid ''koi_depth''))"
    | "e \<in> set (check_errors df st ''koi_teq'' (range_invalid ''koi_teq''))"
    | "e \<in> set (cross_errors df)"
    by (auto simp: range_errors_def)
  then show ?thesis
  proof cases
    case 5
    then obtain r where "e = row_error PlanetLargerThanStar r"
      by (auto simp: cross_errors_def split: if_splits)
    then show ?thesis by (simp add: row_error_def)
  qed (rule ce, assumption)+
qed

lemma required_error_message:
  assumes "e \<in> set (snd (impute_missing_values df required optional st))"
  shows "err_message e \<noteq> ExtremeOutlier feat"
proof -
  from impute_error_rows [OF assms] obtain r f where "e = row_error (RequiredMissing f) r"
    by blast
  then show ?thesis by (simp add: row_error_def)
qed

lemma outlier_error_form:
  assumes "e \<in> set (outlier_errors df feats)"
  shows "\<exists>r \<in> set (rows df). \<exists>f \<in> set feats.
           e = row_error (ExtremeOutlier f) r \<and> outlier_fails df f r"
  using assms by (auto simp: outlier_errors_def)

lemma outlier_entry_descends:
  assumes run: "res = preprocess_csv cols lines st" and ok: "success res"
    and e: "e \<in> set (errors res)" and msg: "err_message e = ExtremeOutlier feat"
  shows "\<exists>i < length lines. err_row e = int i \<and> outlier_at cols lines st i feat"
proof -
  let ?r0 = "initial_result\<lparr>original_rows := int (length lines)\<rparr>"
  let ?d2 = "deduplicated cols lines"
  from ok [unfolded run] show ?thesis
  proof (cases rule: preprocess_success_cases)
    case transformed
    have "success (short_circuit (read_csv cols lines) ?r0)" using ok run transformed(3) by simp
    from short_circuit_success(5) [OF this initial_result_simps(1)] e
    have False by (simp add: run transformed(3) initial_result_simps)
    then show ?thesis ..
  next
    case raw
    have "success (raw_path (read_csv cols lines) st ?r0)" using ok run raw(3) by simp
    from this initial_result_simps(1) obtain df3 e1 df4 e2 df6 e3 where
      v: "validate_physical_ranges ?d2 st = Inr (df3, e1)" and
      imp: "impute_missing_values df3 required_features optional_features st = (df4, e2)" and
      o: "remove_extreme_outliers (apply_log_transforms df4 st) all_features = (df6, e3)" and
      errs: "errors res = e1 @ e2 @ e3"
      unfolding run raw(3) deduplicated_def
      by (rule raw_path_success) (simp_all add: initial_result_simps)
    let ?d5 = "apply_log_transforms df4 st"
    let ?hr = "has_required df3 required_features"
    let ?opt = "filter (has_column df3) optional_features"
    let ?med = "medians_pretransform st"
    have input: "suppressor_input cols lines st = Some ?d5"
      by (simp add: suppressor_input_def v imp)
    have d3: "df3 = ?d2\<lparr>rows := filter (\<lambda>r. \<not> row_rejected ?d2 st r) (rows ?d2)\<rparr>"
      using validate_result(1) [OF v] .
    have d4: "rows df4 = map (fill_row ?med ?opt) (filter ?hr (rows df3))"
      using impute_rows [of df3 required_features optional_features st] by (simp add: imp)
    have i5: "map idx (rows ?d5) = map idx (rows df4)"
      by (simp add: apply_log_transforms_def fold_log_step_idx)
    have i4: "map idx (rows df4) = map idx (filter ?hr (rows df3))"
      by (simp add: d4 fill_row_def o_def)
    have labels: "distinct (map idx (rows ?d5))"
      unfolding i5 i4
      by (simp add: d3 distinct_map_filter deduplicated_labels)
    have e2: "e2 = snd (impute_missing_values df3 required_features optional_features st)"
      by (simp add: imp)
    have e3: "e3 = outlier_errors ?d5 all_features"
      using o by (simp add: remove_extreme_outliers_result)
    from range_error_message [OF v] required_error_message [of _ df3] e errs msg
    have "e \<in> set e3" unfolding e2 by auto
    from outlier_error_form [OF this [unfolded e3]] msg obtain r5 where
      r5: "r5 \<in> set (rows ?d5)" "e = row_error (ExtremeOutlier feat) r5" "outlier_fails ?d5 feat r5"
      by (auto simp: row_error_def)
    from r5(1) obtain k where k: "k < length (rows ?d5)" "rows ?d5 ! k = r5"
      by (auto simp: in_set_conv_nth)
    have len: "length (rows ?d5) = length (rows df4)"
      "length (rows df4) = length (filter ?hr (rows df3))"
      using i5 i4 by (metis length_map)+
    define r3 where "r3 = filter ?hr (rows df3) ! k"
    define r4 where "r4 = rows df4 ! k"
    have k3: "k < length (filter ?hr (rows df3))" using k(1) len by simp
    then have "r3 \<in> set (filter ?hr (rows df3))" unfolding r3_def by (rule nth_mem)
    then have r3: "r3 \<in> set (rows ?d2)" by (simp add: d3)
    have r4: "r4 = fill_row ?med ?opt r3"
      using k3 by (simp add: r4_def r3_def d4)
    have "idx r5 = map idx (rows ?d5) ! k" using k by simp
    also have "\<dots> = map idx (rows df4) ! k" by (simp only: i5)
    also have "\<dots> = idx r4" using k(1) len by (simp add: r4_def)
    also have "\<dots> = idx r3" by (simp add: r4 fill_row_def)
    finally have same: "idx r5 = idx r3" .
    have bound: "idx r5 < length lines"
      using deduplicated_descent(1) [OF r3] same by simp
    have cell: "list_ex (\<lambda>m. cells r5 c = (log_cell ^^ m) (imputed_cell st cols (snd (lines ! idx r5)) c))
                  [0..<Suc (count_list (log_transform_features st) c)]"
      if c: "c \<in> set all_features" for c
    proof -
      have nl: "c \<notin> set leakage_features" using c by (rule feature_not_leakage)
      from fold_log_step_column [OF feature_no_clash [OF c], of "log_transform_features st" df4]
      obtain m where m: "m \<le> count_list (log_transform_features st) c"
        "column ?d5 c = map (log_cell ^^ m) (column df4 c)"
        unfolding apply_log_transforms_def by blast
      have "cells r5 c = column ?d5 c ! k" using k by (simp add: column_def)
      also have "\<dots> = map (log_cell ^^ m) (column df4 c) ! k" by (simp only: m(2))
      also have "\<dots> = (log_cell ^^ m) (cells r4 c)"
        using k(1) len by (simp add: column_def r4_def)
      finally have c5: "cells r5 c = (log_cell ^^ m) (cells r4 c)" .
      have "has_column df3 c = (c \<in> set cols)"
        using deduplicated_columns [OF nl, of cols lines] by (simp add: d3 has_column_def)
      then have "cells r4 c = imputed_cell st cols (cells r3) c"
        by (simp add: r4 fill_row_def imputed_cell_def)
      also have "\<dots> = imputed_cell st cols (snd (lines ! idx r5)) c"
        using deduplicated_descent(2) [OF r3 nl] same by (simp add: imputed_cell_def)
      finally have "cells r5 c = (log_cell ^^ m) (imputed_cell st cols (snd (lines ! idx r5)) c)"
        using c5 by simp
      moreover have "m \<in> set [0..<Suc (count_list (log_transform_features st) c)]"
        using m(1) by (simp add: less_Suc_eq_le del: upt_Suc)
      ultimately show ?thesis unfolding list_ex_iff by blast
    qed
    then have "carries_line st cols (snd (lines ! idx r5)) r5"
      by (simp add: carries_line_def list_all_iff)
    with r5(1,3) labels have "outlier_at cols lines st (idx r5) feat"
      unfolding outlier_at_def input list_ex_iff by auto
    with bound r5(2) show ?thesis
      by (intro exI [of _ "idx r5"]) (simp add: row_error_def)
  qed
qed

text \<open>
  Claim C10. Every per-row error entry of a successful run, whichever stage emitted it,
  carries the index that the row has in the table as loaded. The index is a position of
  the input, and the input line at that position shows the fault the message reports (a
  range violation, the radius constraint, a missing required feature), however many rows
  earlier stages removed. For an entry of the outlier suppressor, the frame that enters
  the suppressor, after the mask of the range filter, \<^verbatim>\<open>dropna\<close> and
  \<^verbatim>\<open>drop_duplicates\<close>, has no two rows with the same label; its row with the label of
  the entry holds the values of the input line at that position, imputed and transformed,
  and lies outside the fence of the reported feature.
\<close>

theorem diagnostics_indices:
  assumes "res = preprocess_csv cols lines st" and "success res"
    and "e \<in> set (errors res)"
  shows "\<exists>i < length lines. err_row e = int i \<and> fault_at (snd (lines ! i)) (err_message e) \<and>
           (\<forall>feat. err_message e = ExtremeOutlier feat \<longrightarrow> outlier_at cols lines st i feat)"
proof -
  from error_rows_descend [OF assms] obtain i where
    i: "i < length lines" "err_row e = int i" "fault_at (snd (lines ! i)) (err_message e)"
    by blast
  have "outlier_at cols lines st i feat" if "err_message e = ExtremeOutlier feat" for feat
  proof -
    from outlier_entry_descends [OF assms that] obtain j where
      "err_row e = int j" "outlier_at cols lines st j feat"
      by blast
    with i(2) show ?thesis by simp
  qed
  with i show ?thesis by blast
qed

section \<open>An outlier entry after a removal\<close>

lemma suppressor_input_reference:
  "suppressor_input cols lines (reference_stats med) =
     Some (apply_log_transforms
             (fst (impute_missing_values
                     ((deduplicated cols lines)
                        \<lparr>rows := filter (\<lambda>r. \<not> row_rejected (deduplicated cols lines)
                                                 (reference_stats med) r)
                                   (rows (deduplicated cols lines))\<rparr>)
                     required_features optional_features (reference_stats med)))
             (reference_stats med))"
proof -
  obtain df3 e1 where
    v: "validate_physical_ranges (deduplicated cols lines) (reference_stats med) = Inr (df3, e1)"
    using validate_reference [of "deduplicated cols lines" med] by (metis surj_pair)
  from validate_result(1) [OF v] show ?thesis
    by (simp add: suppressor_input_def v)
qed

lemma suppressor_input_rows:
  assumes "suppressor_input cols lines (reference_stats med) = Some d5"
    and "filter (\<lambda>r. \<not> row_rejected (deduplicated cols lines) (reference_stats med) r)
           (rows (deduplicated cols lines)) = rs"
    and "c \<notin> set default_log_features" and "no_clash default_log_features c"
    and "c \<notin> set optional_features"
  shows "map idx (rows d5) = map idx (filter (has_required (deduplicated cols lines) required_features) rs)"
    and "column d5 c = map (\<lambda>r. cells r c) (filter (has_required (deduplicated cols lines) required_features) rs)"
    and "has_column d5 c = has_column (deduplicated cols lines) c"
proof -
  let ?st = "reference_stats med"
  let ?d2 = "deduplicated cols lines"
  let ?d3 = "?d2\<lparr>rows := rs\<rparr>"
  let ?d4 = "fst (impute_missing_values ?d3 required_features optional_features ?st)"
  have d5: "d5 = fold log_step default_log_features ?d4"
    using assms(1) unfolding suppressor_input_reference assms(2)
    by (simp add: apply_log_transforms_def reference_stats_def)
  have hc: "has_column ?d3 = has_column ?d2" by (simp add: has_column_def fun_eq_iff)
  have hr: "has_required ?d3 required_features = has_required ?d2 required_features"
    by (simp add: has_required_def hc fun_eq_iff)
  have d4: "rows ?d4 = map (fill_row med (filter (has_column ?d2) optional_features))
                         (filter (has_required ?d2 required_features) rs)"
    by (simp add: impute_rows hc hr reference_stats_def)
  show "map idx (rows d5) = map idx (filter (has_required ?d2 required_features) rs)"
    by (simp add: d5 fold_log_step_idx d4 fill_row_def o_def)
  from fold_log_step_other [OF assms(3,4), of ?d4]
  have other: "column d5 c = column ?d4 c" "has_column d5 c = has_column ?d4 c"
    by (simp_all add: d5)
  show "column d5 c = map (\<lambda>r. cells r c) (filter (has_required ?d2 required_features) rs)"
    unfolding other(1) using assms(5) by (simp add: column_def d4 fill_row_def o_def)
  show "has_column d5 c = has_column ?d2 c"
    unfolding other(2) by (simp add: has_column_def impute_columns)
qed

lemma outlier_errors_reported:
  assumes ok: "success (preprocess_csv cols lines st)"
    and input: "suppressor_input cols lines st = Some d5"
    and raw: "\<not> is_already_preprocessed (read_csv cols lines)"
  shows "set (outlier_errors d5 all_features) \<subseteq> set (errors (preprocess_csv cols lines st))"
proof -
  let ?res = "preprocess_csv cols lines st"
  let ?r0 = "initial_result\<lparr>original_rows := int (length lines)\<rparr>"
  from ok have run: "?res = raw_path (read_csv cols lines) st ?r0"
    by (cases rule: preprocess_success_cases) (simp_all add: raw)
  with ok have "success (raw_path (read_csv cols lines) st ?r0)" by simp
  from this initial_result_simps(1) obtain df3 e1 df4 e2 df6 e3 where
    v: "validate_physical_ranges (deduplicated cols lines) st = Inr (df3, e1)" and
    imp: "impute_missing_values df3 required_features optional_features st = (df4, e2)" and
    o: "remove_extreme_outliers (apply_log_transforms df4 st) all_features = (df6, e3)" and
    errs: "errors ?res = e1 @ e2 @ e3"
    unfolding run deduplicated_def
    by (rule raw_path_success) (simp_all add: initial_result_simps)
  have "d5 = apply_log_transforms df4 st"
    using input by (simp add: suppressor_input_def v imp)
  with o have "e3 = outlier_errors d5 all_features"
    by (simp add: remove_extreme_outliers_result)
  with errs show ?thesis by auto
qed

lemma transit_deduplicated:
  "deduplicated logged_cols transit_lines =
     \<lparr>columns = logged_cols,
      rows = [\<lparr>idx = 0, kepoi = None, cells = valid_cells(''koi_duration'' := None)\<rparr>,
              \<lparr>idx = 1, kepoi = None, cells = valid_cells\<rparr>,
              \<lparr>idx = 2, kepoi = None, cells = valid_cells\<rparr>,
              \<lparr>idx = 3, kepoi = None, cells = valid_cells\<rparr>,
              \<lparr>idx = 4, kepoi = None, cells = valid_cells\<rparr>,
              \<lparr>idx = 5, kepoi = None, cells = valid_cells(''koi_duration'' := Some 2)\<rparr>]\<rparr>"
  by (simp add: deduplicated_def read_csv_def transit_lines_def enumerate_eq_zip upt_rec
      remove_leakage_features_def leakage_features_def leakage_step_def remove_duplicates_def
      has_column_def logged_cols_def)

lemma transit_raw: "\<not> is_already_preprocessed (read_csv logged_cols transit_lines)"
  by (simp add: read_csv_def transit_lines_def enumerate_eq_zip upt_rec
      is_already_preprocessed_def detector_log_features_def has_column_def logged_cols_def
      detect_step_def dropna_values_def List.map_filter_def valid_cells_simps votes_transformed_def)

lemma transit_success:
  "success (preprocess_csv logged_cols transit_lines (reference_stats no_medians))"
  by (rule raw_run_succeeds [OF _ transit_raw])
     (simp_all add: transit_lines_def logged_cols_def required_features_def)

lemma transit_valid:
  "filter (\<lambda>r. \<not> row_rejected (deduplicated logged_cols transit_lines) (reference_stats no_medians) r)
     (rows (deduplicated logged_cols transit_lines)) = rows (deduplicated logged_cols transit_lines)"
  unfolding transit_deduplicated
  by (simp add: row_rejected_def range_rejected_def cross_rejected_def range_fails_def
      has_column_def logged_cols_def reference_stats_def default_ranges_def period_invalid_def
      range_invalid_def valid_cells_simps)

lemma transit_complete:
  "filter (has_required (deduplicated logged_cols transit_lines) required_features)
     (rows (deduplicated logged_cols transit_lines)) =
     [\<lparr>idx = 1, kepoi = None, cells = valid_cells\<rparr>,
      \<lparr>idx = 2, kepoi = None, cells = valid_cells\<rparr>,
      \<lparr>idx = 3, kepoi = None, cells = valid_cells\<rparr>,
      \<lparr>idx = 4, kepoi = None, cells = valid_cells\<rparr>,
      \<lparr>idx = 5, kepoi = None, cells = valid_cells(''koi_duration'' := Some 2)\<rparr>]"
  unfolding transit_deduplicated
  by (simp add: has_required_def required_features_def has_column_def logged_cols_def
      valid_cells_simps)

lemma quantile_transit:
  "quantile [1, 1, 1, 1, 2] 0.25 = 1" "quantile [1, 1, 1, 1, 2] 0.75 = 1"
  by (simp_all add: quantile_def Let_def)

lemma transit_input:
  obtains d5 where
    "suppressor_input logged_cols transit_lines (reference_stats no_medians) = Some d5"
    "map idx (rows d5) = [1, 2, 3, 4, 5]"
    "column d5 ''koi_duration'' = [Some 1, Some 1, Some 1, Some 1, Some 2]"
    "has_column d5 ''koi_duration''"
proof -
  obtain d5 where
    input: "suppressor_input logged_cols transit_lines (reference_stats no_medians) = Some d5"
    unfolding suppressor_input_reference by blast
  have a: "''koi_duration'' \<notin> set default_log_features"
    by (simp add: default_log_features_def)
  have b: "no_clash default_log_features ''koi_duration''"
    by (simp add: no_clash_def default_log_features_def)
  have c: "''koi_duration'' \<notin> set optional_features"
    by (simp add: optional_features_def)
  note parts = suppressor_input_rows [OF input transit_valid a b c, unfolded transit_complete]
  have "map idx (rows d5) = [1, 2, 3, 4, 5]"
    using parts(1) by simp
  moreover have "column d5 ''koi_duration'' = [Some 1, Some 1, Some 1, Some 1, Some 2]"
    using parts(2) by (simp add: valid_cells_simps)
  moreover have "has_column d5 ''koi_duration''"
    unfolding parts(3) transit_deduplicated by (simp add: has_column_def logged_cols_def)
  ultimately show ?thesis using input by (rule that [rotated 1])
qed

lemma transit_outlier:
  assumes "column d5 ''koi_duration'' = [Some 1, Some 1, Some 1, Some 1, Some 2]"
    and "has_column d5 ''koi_duration''" and "cells r ''koi_duration'' = Some 2"
  shows "outlier_fails d5 ''koi_duration'' r"
proof -
  have "dropna_values d5 ''koi_duration'' = [1, 1, 1, 1, 2]"
    by (simp add: dropna_values_column assms(1) List.map_filter_def)
  moreover have "quantile [1, 1, 1, 1, 2] (1 / 4) = 1" "quantile [1, 1, 1, 1, 2] (3 / 4) = 1"
    using quantile_transit by simp_all
  ultimately show ?thesis
    using assms(2,3) by (simp add: outlier_fails_def outlier_invalid_def Let_def)
qed

text \<open>
  Two batches. In the scenario, the range entry for line 2 (period \<open>-1\<close>) is in the errors
  list although line 1 was removed before the range check ran, and the line at index 2
  shows the fault. In the batch of six lines, \<^verbatim>\<open>dropna\<close> removes line 0, so that the frame
  entering the suppressor has the labels 1 to 5; the suppressor rejects its last row, the
  entry carries the index 5, and line 5 is the line with the duration 2.
\<close>

theorem diagnostics_indices_witness:
  "survey_error \<in> set (errors (preprocess_csv survey_cols survey_lines (reference_stats no_medians))) \<and>
   err_row survey_error = 2 \<and>
   fault_at (snd (survey_lines ! 2)) (err_message survey_error) \<and>
   transit_error \<in> set (errors (preprocess_csv logged_cols transit_lines (reference_stats no_medians))) \<and>
   map_option (\<lambda>d. map idx (rows d))
     (suppressor_input logged_cols transit_lines (reference_stats no_medians)) = Some [1, 2, 3, 4, 5] \<and>
   outlier_at logged_cols transit_lines (reference_stats no_medians) 5 ''koi_duration''"
proof -
  let ?st = "reference_stats no_medians"
  let ?res = "preprocess_csv survey_cols survey_lines ?st"
  have "survey_error \<in> set (check_errors (deduplicated survey_cols survey_lines)
          ?st ''koi_period'' period_invalid)"
    unfolding survey_deduplicated
    by (simp add: check_errors_def has_column_def survey_cols_def reference_stats_def
        default_ranges_def period_invalid_def valid_cells_simps row_error_def survey_error_def)
  then have "survey_error \<in> set (range_errors (deduplicated survey_cols survey_lines) ?st)"
    by (simp add: range_errors_def)
  with raw_run_parts(2) [OF survey_success survey_raw] have mem: "survey_error \<in> set (errors ?res)"
    by blast
  from diagnostics_indices [OF refl survey_success mem] obtain i where
    "err_row survey_error = int i" "fault_at (snd (survey_lines ! i)) (err_message survey_error)"
    by blast
  moreover have "err_row survey_error = 2" by (simp add: survey_error_def)
  ultimately have fault: "fault_at (snd (survey_lines ! 2)) (err_message survey_error)"
    by (cases "i = 2") simp_all
  obtain d5 where
    input: "suppressor_input logged_cols transit_lines ?st = Some d5" and
    labels: "map idx (rows d5) = [1, 2, 3, 4, 5]" and
    col: "column d5 ''koi_duration'' = [Some 1, Some 1, Some 1, Some 1, Some 2]" and
    has: "has_column d5 ''koi_duration''"
    by (rule transit_input)
  define r where "r = rows d5 ! 4"
  have "length (map idx (rows d5)) = 5" unfolding labels by simp
  then have len: "length (rows d5) = 5" by simp
  then have r: "r \<in> set (rows d5)" by (simp add: r_def)
  have "idx r = map idx (rows d5) ! 4" using len by (simp add: r_def)
  then have idx: "idx r = 5" by (simp add: labels)
  have "cells r ''koi_duration'' = column d5 ''koi_duration'' ! 4"
    using len by (simp add: r_def column_def)
  then have "cells r ''koi_duration'' = Some 2" by (simp add: col)
  from transit_outlier [OF col has this] have fails: "outlier_fails d5 ''koi_duration'' r" .
  have entry: "row_error (ExtremeOutlier ''koi_duration'') r = transit_error"
    by (simp add: row_error_def transit_error_def idx)
  have "''koi_duration'' \<in> set all_features"
    by (simp add: all_features_def required_features_def)
  with r fails have "row_error (ExtremeOutlier ''koi_duration'') r
      \<in> set (outlier_errors d5 all_features)"
    by (auto simp: outlier_errors_def)
  then have "transit_error \<in> set (outlier_errors d5 all_features)"
    by (simp only: entry)
  with outlier_errors_reported [OF transit_success input transit_raw]
  have tmem: "transit_error \<in> set (errors (preprocess_csv logged_cols transit_lines ?st))"
    by blast
  from diagnostics_indices [OF refl transit_success tmem] obtain j where
    j: "err_row transit_error = int j"
      "\<forall>feat. err_message transit_error = ExtremeOutlier feat \<longrightarrow>
          outlier_at logged_cols transit_lines ?st j feat"
    by blast
  from j(1) have "j = 5" by (simp add: transit_error_def)
  with j(2) have "outlier_at logged_cols transit_lines ?st 5 ''koi_duration''"
    by (simp add: transit_error_def)
  with mem fault tmem input labels show ?thesis by (simp add: survey_error_def)
qed

section \<open>Duplicate resolution in the full run\<close>

lemma sole_row_written:
  assumes ok: "success (preprocess_csv cols lines st)"
    and raw: "\<not> is_already_preprocessed (read_csv cols lines)"
    and one: "rows (deduplicated cols lines) = [r]"
    and valid: "\<not> row_rejected (deduplicated cols lines) st r"
    and complete: "has_required (deduplicated cols lines) required_features r"
  shows "output_indices (preprocess_csv cols lines st) = [idx r]"
proof -
  let ?res = "preprocess_csv cols lines st"
  let ?r0 = "initial_result\<lparr>original_rows := int (length lines)\<rparr>"
  let ?d2 = "deduplicated cols lines"
  from ok have run: "?res = raw_path (read_csv cols lines) st ?r0"
    by (cases rule: preprocess_success_cases) (simp_all add: raw)
  with ok have "success (raw_path (read_csv cols lines) st ?r0)" by simp
  from this initial_result_simps(1) obtain df3 e1 df4 e2 df6 e3 where
    v: "validate_physical_ranges ?d2 st = Inr (df3, e1)" and
    imp: "impute_missing_values df3 required_features optional_features st = (df4, e2)" and
    o: "remove_extreme_outliers (apply_log_transforms df4 st) all_features = (df6, e3)" and
    w: "written ?res = Some (select_features df6)"
    unfolding run deduplicated_def
    by (rule raw_path_success) (simp_all add: initial_result_simps)
  let ?d5 = "apply_log_transforms df4 st"
  have d3: "df3 = ?d2\<lparr>rows := [r]\<rparr>"
    using validate_result(1) [OF v] one valid by simp
  have hc: "has_column df3 = has_column ?d2"
    by (simp add: has_column_def fun_eq_iff d3)
  have hr: "has_required df3 required_features r = has_required ?d2 required_features r"
    unfolding has_required_def hc ..
  have "map idx (rows df4) = map idx (filter (has_required df3 required_features) (rows df3))"
    using impute_idx [of df3 required_features optional_features st] by (simp add: imp)
  moreover have "rows df3 = [r]" by (simp add: d3)
  ultimately have i4: "map idx (rows df4) = [idx r]"
    using complete hr by simp
  have i5: "map idx (rows ?d5) = [idx r]"
    by (simp add: apply_log_transforms_def fold_log_step_idx i4)
  then obtain r5 where r5: "rows ?d5 = [r5]" "idx r5 = idx r"
    by (cases "rows ?d5") auto
  from single_row_no_outlier [OF r5(1)] have "rows df6 = [r5]"
    using o by (auto simp: remove_extreme_outliers_result r5(1))
  then show ?thesis
    by (simp add: output_indices_def w select_features_idx r5(2))
qed

lemma twin_cells_simps:
  "twin_cells snr ''koi_period'' = Some 10"
  "twin_cells snr ''koi_depth'' = Some 10"
  "twin_cells snr ''koi_duration'' = Some 1"
  "twin_cells snr ''koi_prad'' = Some 10"
  "twin_cells snr ''koi_model_snr'' = Some snr"
  "twin_cells snr ''koi_insol'' = None"
  "twin_cells snr ''koi_srad'' = None"
  "twin_cells snr ''koi_teq'' = None"
  by (simp_all add: twin_cells_def)

lemma twin_frame:
  "read_csv twin_cols twin_lines =
     \<lparr>columns = twin_cols,
      rows = [\<lparr>idx = 0, kepoi = Some ''K00001.01'', cells = twin_cells 5\<rparr>,
              \<lparr>idx = 1, kepoi = Some ''K00001.01'', cells = twin_cells 50\<rparr>]\<rparr>"
  by (simp add: read_csv_def twin_lines_def enumerate_eq_zip upt_rec)

lemma twin_raw: "\<not> is_already_preprocessed (read_csv twin_cols twin_lines)"
  unfolding twin_frame
  by (simp add: is_already_preprocessed_def detector_log_features_def has_column_def twin_cols_def
      detect_step_def dropna_values_def List.map_filter_def twin_cells_simps votes_transformed_def)

lemma twin_deduplicated:
  "deduplicated twin_cols twin_lines =
     \<lparr>columns = twin_cols,
      rows = [\<lparr>idx = 0, kepoi = Some ''K00001.01'', cells = twin_cells 5\<rparr>]\<rparr>"
proof -
  have "remove_leakage_features (read_csv twin_cols twin_lines) = read_csv twin_cols twin_lines"
    unfolding twin_frame
    by (simp add: remove_leakage_features_def leakage_features_def leakage_step_def has_column_def
        twin_cols_def)
  then show ?thesis
    unfolding deduplicated_def twin_frame
    by (simp add: remove_duplicates_def has_column_def drop_duplicates_def)
       (simp add: twin_cols_def)
qed

lemma twin_success:
  "success (preprocess_csv twin_cols twin_lines (reference_stats no_medians))"
  by (rule raw_run_succeeds [OF _ twin_raw])
     (simp_all add: twin_lines_def twin_cols_def required_features_def)

lemma twin_written:
  "output_indices (preprocess_csv twin_cols twin_lines (reference_stats no_medians)) = [0]"
proof -
  let ?r = "\<lparr>idx = 0, kepoi = Some ''K00001.01'', cells = twin_cells 5\<rparr>"
  have one: "rows (deduplicated twin_cols twin_lines) = [?r]"
    by (simp add: twin_deduplicated)
  have valid: "\<not> row_rejected (deduplicated twin_cols twin_lines) (reference_stats no_medians) ?r"
    unfolding twin_deduplicated
    by (simp add: row_rejected_def range_rejected_def cross_rejected_def range_fails_def
        has_column_def twin_cols_def reference_stats_def default_ranges_def period_invalid_def
        range_invalid_def twin_cells_simps)
  have complete: "has_required (deduplicated twin_cols twin_lines) required_features ?r"
    unfolding twin_deduplicated
    by (simp add: has_required_def required_features_def has_column_def twin_cols_def
        twin_cells_simps)
  from sole_row_written [OF twin_success twin_raw one valid complete] show ?thesis by simp
qed

text \<open>
  Claim C4. Of several rows with the same \<open>kepoi_name\<close>, duplicate resolution is to keep
  the row with the greatest \<open>koi_model_snr\<close>, a missing one counting as the lowest value.
  The dataset extraction tool \<^verbatim>\<open>tools/extract_clean_dataset.py\<close> does so: it sorts by
  \<open>kepoi_name\<close> and by \<open>koi_model_snr\<close> descending, then calls
  \<^verbatim>\<open>drop_duplicates(subset='kepoi_name', keep='first')\<close>; the training-side
  \<^verbatim>\<open>_remove_duplicate_kois\<close> makes the same sort. \<^verbatim>\<open>preprocess_csv\<close> makes the same
  call without the sort, and so diverges from the claim: of two rows with the same
  identifier and the ratios 5 and 50, in this order, it keeps the row with the ratio 5,
  and the full run on a file of these two lines writes line 0 only.
\<close>

theorem duplicates_ignore_snr:
  "rows (drop_duplicates twin_table) = [weak_first] \<and>
   kepoi strong_second = kepoi weak_first \<and>
   cells weak_first ''koi_model_snr'' = Some 5 \<and>
   cells strong_second ''koi_model_snr'' = Some 50 \<and>
   snr_below weak_first strong_second \<and>
   fst (twin_lines ! 0) = fst (twin_lines ! 1) \<and>
   snd (twin_lines ! 0) ''koi_model_snr'' = Some 5 \<and>
   snd (twin_lines ! 1) ''koi_model_snr'' = Some 50 \<and>
   success (preprocess_csv twin_cols twin_lines (reference_stats no_medians)) \<and>
   output_indices (preprocess_csv twin_cols twin_lines (reference_stats no_medians)) = [0]"
proof -
  have "rows (drop_duplicates twin_table) = [weak_first] \<and>
   kepoi strong_second = kepoi weak_first \<and>
   cells weak_first ''koi_model_snr'' = Some 5 \<and>
   cells strong_second ''koi_model_snr'' = Some 50 \<and>
   snr_below weak_first strong_second"
    by (simp add: twin_rows) (simp add: weak_first_def strong_second_def mk_row_def snr_below_def)
  moreover have "fst (twin_lines ! 0) = fst (twin_lines ! 1) \<and>
   snd (twin_lines ! 0) ''koi_model_snr'' = Some 5 \<and>
   snd (twin_lines ! 1) ''koi_model_snr'' = Some 50"
    by (simp add: twin_lines_def twin_cells_simps)
  ultimately show ?thesis using twin_success twin_written by simp
qed

end
